theory Spec2Isabelle
  imports Main
begin

section \<open>Strings\<close>

text \<open>
  A JavaScript string is modelled as a HOL \<^typ>\<open>string\<close>: a list of code units, each below
  256 (the Latin-1 range of UTF-16). The string operations of the source are written out
  on that range.
\<close>

text \<open>
  \<^verbatim>\<open>String.prototype.trim\<close> removes WhiteSpace and LineTerminator code points from both
  ends. Below 256 these are TAB, LF, VT, FF, CR, SPACE and NO-BREAK SPACE.
\<close>

definition isWhiteSpace :: "char \<Rightarrow> bool" where
  "isWhiteSpace c = (of_char c \<in> {9, 10, 11, 12, 13, 32, 160 :: nat})"

definition trimStart :: "string \<Rightarrow> string" where
  "trimStart s = dropWhile isWhiteSpace s"

definition trimEnd :: "string \<Rightarrow> string" where
  "trimEnd s = rev (dropWhile isWhiteSpace (rev s))"

definition trim :: "string \<Rightarrow> string" where
  "trim s = trimEnd (trimStart s)"

text \<open>
  \<^verbatim>\<open>String.prototype.toLowerCase\<close> below 256: the letters A to Z and the Latin-1 capitals
  (192 to 222, but not the multiplication sign 215) move up by 32.
\<close>

definition lowerChar :: "char \<Rightarrow> char" where
  "lowerChar c =
     (let n = of_char c :: nat
      in if (65 \<le> n \<and> n \<le> 90) \<or> (192 \<le> n \<and> n \<le> 222 \<and> n \<noteq> 215)
         then char_of (n + 32) else c)"

definition toLowerCase :: "string \<Rightarrow> string" where
  "toLowerCase s = map lowerChar s"

definition startsWith :: "string \<Rightarrow> string \<Rightarrow> bool" where
  "startsWith s p = (take (length p) s = p)"

text \<open>
  \<^verbatim>\<open>s.split(re)\<close> for a regular expression that matches exactly one code unit of a class:
  the pieces between the matches, empty pieces included; the empty string gives one
  empty piece.
\<close>

fun splitOn :: "(char \<Rightarrow> bool) \<Rightarrow> string \<Rightarrow> string list" where
  "splitOn sep [] = [[]]"
| "splitOn sep (c # cs) =
     (if sep c then [] # splitOn sep cs
      else (case splitOn sep cs of
              [] \<Rightarrow> [[c]]
            | w # ws \<Rightarrow> (c # w) # ws))"

text \<open>Truthiness of an optional string: neither null/undefined nor empty.\<close>

fun truthy :: "string option \<Rightarrow> bool" where
  "truthy None = False"
| "truthy (Some s) = (s \<noteq> [])"

section \<open>Target addressing\<close>

datatype OneBotTarget =
    User (userId: string)
  | Group (groupId: string)
  | Channel (guildId: string) (channelId: string)

text \<open>
  \<^verbatim>\<open>PREFIX_RE = /^onebot:/i\<close>. Without the unicode flag a code unit at or above 128 never
  folds to an ASCII letter, so the expression matches exactly the strings whose first
  seven code units lower-case to \<^verbatim>\<open>onebot:\<close>.
\<close>

definition matchesPREFIX_RE :: "string \<Rightarrow> bool" where
  "matchesPREFIX_RE s = (toLowerCase (take 7 s) = ''onebot:'')"

definition normalizeRawTarget :: "string \<Rightarrow> string" where
  "normalizeRawTarget input =
     (let trimmed = trim input
      in if matchesPREFIX_RE trimmed then drop 7 trimmed else trimmed)"

definition stripPrefix :: "string \<Rightarrow> string \<Rightarrow> string option" where
  "stripPrefix input prefix =
     (let lowered = toLowerCase input
      in if \<not> startsWith lowered prefix then None
         else Some (trim (drop (length prefix) input)))"

text \<open>The loop over \<^verbatim>\<open>userPrefixes\<close>: the first prefix with a non-empty remainder returns.\<close>

fun parseUserPrefixes :: "string \<Rightarrow> string list \<Rightarrow> OneBotTarget option" where
  "parseUserPrefixes raw [] = None"
| "parseUserPrefixes raw (prefix # prefixes) =
     (case stripPrefix raw prefix of
        None \<Rightarrow> parseUserPrefixes raw prefixes
      | Some rest \<Rightarrow>
          if rest \<noteq> [] then Some (User rest) else parseUserPrefixes raw prefixes)"

definition isPathSep :: "char \<Rightarrow> bool" where
  "isPathSep c = (c = CHR ''/'' \<or> c = CHR '':'')"

definition channelParts :: "string \<Rightarrow> string list" where
  "channelParts rest = filter (\<lambda>part. part \<noteq> []) (map trim (splitOn isPathSep rest))"

text \<open>
  The loop over \<^verbatim>\<open>channelPrefixes\<close>: the first prefix with a non-empty remainder decides,
  and returns null at once when fewer than two parts are left.
\<close>

fun parseChannelPrefixes :: "string \<Rightarrow> string list \<Rightarrow> OneBotTarget option" where
  "parseChannelPrefixes raw [] = None"
| "parseChannelPrefixes raw (prefix # prefixes) =
     (case stripPrefix raw prefix of
        None \<Rightarrow> parseChannelPrefixes raw prefixes
      | Some rest \<Rightarrow>
          if rest \<noteq> []
          then (case channelParts rest of
                  g # c # _ \<Rightarrow> Some (Channel g c)
                | _ \<Rightarrow> None)
          else parseChannelPrefixes raw prefixes)"

definition parseOneBotTarget :: "string \<Rightarrow> OneBotTarget option" where
  "parseOneBotTarget input =
     (let raw = normalizeRawTarget input
      in if raw = [] then None
         else (case parseUserPrefixes raw [''user:'', ''private:'', ''dm:'', ''qq:''] of
                 Some t \<Rightarrow> Some t
               | None \<Rightarrow>
                   (case stripPrefix raw ''group:'' of
                      Some groupRest \<Rightarrow>
                        if groupRest \<noteq> [] then Some (Group groupRest)
                        else parseChannelPrefixes raw [''channel:'', ''guild:'']
                    | None \<Rightarrow> parseChannelPrefixes raw [''channel:'', ''guild:''])))"

definition normalizeOneBotMessagingTarget :: "string \<Rightarrow> string" where
  "normalizeOneBotMessagingTarget target =
     (case parseOneBotTarget target of
        None \<Rightarrow> trim target
      | Some (User u) \<Rightarrow> ''user:'' @ u
      | Some (Group g) \<Rightarrow> ''group:'' @ g
      | Some (Channel g c) \<Rightarrow> ''channel:'' @ g @ '':'' @ c)"

definition looksLikeOneBotTargetId :: "string \<Rightarrow> bool" where
  "looksLikeOneBotTargetId input = (parseOneBotTarget input \<noteq> None)"

definition formatOneBotTargetHint :: string where
  "formatOneBotTargetHint = ''<user:ID|group:ID|channel:GUILD:CHANNEL>''"

record TargetEvent =
  detailType :: string
  userId :: "string option"
  groupId :: "string option"
  guildId :: "string option"
  channelId :: "string option"

definition buildOneBotTargetFromEvent :: "TargetEvent \<Rightarrow> string option" where
  "buildOneBotTargetFromEvent params =
     (let detail = toLowerCase (trim (detailType params))
      in if detail = ''private'' \<or> detail = ''user'' \<or> detail = ''dm''
         then (if \<not> truthy (userId params) then None
               else Some (''user:'' @ the (userId params)))
         else if detail = ''group''
         then (if \<not> truthy (groupId params) then None
               else Some (''group:'' @ the (groupId params)))
         else if detail = ''channel''
         then (if \<not> truthy (guildId params) \<or> \<not> truthy (channelId params) then None
               else Some (''channel:'' @ the (guildId params) @ '':'' @ the (channelId params)))
         else None)"

section \<open>The protocol client\<close>

subsection \<open>JSON values and the platform\<close>

text \<open>
  A value produced by \<^verbatim>\<open>JSON.parse\<close>. Numbers are the integers (the protocol's return
  codes and ids); an object is the list of its own properties.
\<close>

datatype Json =
    JNull
  | JBool bool
  | JNum int
  | JStr string
  | JArr "Json list"
  | JObj "(string \<times> Json) list"

text \<open>\<^verbatim>\<open>payload && typeof payload === "object"\<close>: arrays and objects, not null.\<close>

fun isObjectValue :: "Json \<Rightarrow> bool" where
  "isObjectValue (JArr _) = True"
| "isObjectValue (JObj _) = True"
| "isObjectValue _ = False"

text \<open>Reading a property by name; an array has none of the names used here.\<close>

fun getProp :: "Json \<Rightarrow> string \<Rightarrow> Json option" where
  "getProp (JObj kvs) k = map_of kvs k"
| "getProp _ k = None"

text \<open>A property whose \<^verbatim>\<open>typeof\<close> is \<^verbatim>\<open>"string"\<close>.\<close>

definition stringProp :: "Json \<Rightarrow> string \<Rightarrow> string option" where
  "stringProp j k = (case getProp j k of Some (JStr s) \<Rightarrow> Some s | _ \<Rightarrow> None)"

text \<open>
  The platform's \<^verbatim>\<open>URL\<close> class and the \<^verbatim>\<open>ws\<close> package are not part of the repository; the
  client is modelled over a record of their operations. \<open>parseUrl\<close> is \<^verbatim>\<open>new URL(s)\<close> on a
  string that has a scheme (\<open>None\<close> when it throws), \<open>hasParam\<close>, \<open>setParam\<close> are
  \<^verbatim>\<open>searchParams.has\<close> and \<^verbatim>\<open>searchParams.set\<close>, \<open>urlString\<close> is \<^verbatim>\<open>toString()\<close>, and
  \<open>webSocketThrows\<close> is the message of the error the \<^verbatim>\<open>WebSocket\<close> constructor throws on an
  address it refuses.
\<close>

record 'u Platform =
  parseUrl :: "string \<Rightarrow> 'u option"
  hasParam :: "'u \<Rightarrow> string \<Rightarrow> bool"
  setParam :: "'u \<Rightarrow> string \<Rightarrow> string \<Rightarrow> 'u"
  urlString :: "'u \<Rightarrow> string"
  webSocketThrows :: "string \<Rightarrow> string option"

text \<open>
  The one rule of the URL parser that the model fixes: with no base URL, an input without a
  scheme is a failure. The parser first strips C0 controls and spaces from both ends and
  removes tabs and newlines; a scheme is a letter, then letters, digits, \<^verbatim>\<open>+\<close>, \<^verbatim>\<open>-\<close> and
  \<^verbatim>\<open>.\<close>, then a colon.
\<close>

definition isC0OrSpace :: "char \<Rightarrow> bool" where
  "isC0OrSpace c = (of_char c \<le> (32 :: nat))"

definition isTabOrNewline :: "char \<Rightarrow> bool" where
  "isTabOrNewline c = (of_char c \<in> {9, 10, 13 :: nat})"

definition isAsciiAlpha :: "char \<Rightarrow> bool" where
  "isAsciiAlpha c = (let n = of_char c :: nat in (65 \<le> n \<and> n \<le> 90) \<or> (97 \<le> n \<and> n \<le> 122))"

definition isSchemeChar :: "char \<Rightarrow> bool" where
  "isSchemeChar c =
     (let n = of_char c :: nat
      in isAsciiAlpha c \<or> (48 \<le> n \<and> n \<le> 57) \<or> c = CHR ''+'' \<or> c = CHR ''-'' \<or> c = CHR ''.'')"

definition hasUrlScheme :: "string \<Rightarrow> bool" where
  "hasUrlScheme s =
     (case filter (\<lambda>c. \<not> isTabOrNewline c)
             (rev (dropWhile isC0OrSpace (rev (dropWhile isC0OrSpace s)))) of
        [] \<Rightarrow> False
      | c # cs \<Rightarrow>
          isAsciiAlpha c \<and>
          (case dropWhile isSchemeChar cs of [] \<Rightarrow> False | d # _ \<Rightarrow> d = CHR '':''))"

definition newURL :: "'u Platform \<Rightarrow> string \<Rightarrow> 'u option" where
  "newURL lib s = (if hasUrlScheme s then parseUrl lib s else None)"

subsection \<open>Access token in the URL\<close>

definition withAccessToken :: "'u Platform \<Rightarrow> string \<Rightarrow> string option \<Rightarrow> string" where
  "withAccessToken lib url token =
     (if \<not> truthy token then url
      else (case newURL lib url of
              None \<Rightarrow> url
            | Some parsed \<Rightarrow>
                if \<not> hasParam lib parsed ''access_token''
                then urlString lib (setParam lib parsed ''access_token'' (the token))
                else urlString lib parsed))"

text \<open>
  \<^verbatim>\<open>url.replace(/access_token=[^&]+/g, "access_token=***")\<close>: scanning from the left, every
  \<^verbatim>\<open>access_token=\<close> that is followed by at least one character other than \<^verbatim>\<open>&\<close> is replaced,
  together with the longest run of such characters, and the scan goes on behind the run.
\<close>

definition notAmp :: "char \<Rightarrow> bool" where
  "notAmp c = (c \<noteq> CHR ''&'')"

function replaceAccessToken :: "string \<Rightarrow> string" where
  "replaceAccessToken [] = []"
| "replaceAccessToken (c # cs) =
     (if startsWith (c # cs) ''access_token='' \<and> takeWhile notAmp (drop 13 (c # cs)) \<noteq> []
      then ''access_token=***'' @ replaceAccessToken (dropWhile notAmp (drop 13 (c # cs)))
      else c # replaceAccessToken cs)"
  by pat_completeness auto
termination
  by (relation "measure length") (auto intro: le_less_trans [OF length_dropWhile_le])

definition sanitizeUrl :: "'u Platform \<Rightarrow> string \<Rightarrow> string" where
  "sanitizeUrl lib url =
     (case newURL lib url of
        None \<Rightarrow> replaceAccessToken url
      | Some parsed \<Rightarrow>
          if hasParam lib parsed ''access_token''
          then urlString lib (setParam lib parsed ''access_token'' ''***'')
          else urlString lib parsed)"

subsection \<open>State of a client and of the runtime around it\<close>

record OneBotSelf =
  self_platform :: "string option"
  self_user_id :: "string option"

datatype ReadyState = CONNECTING | OPEN | CLOSING | CLOSED

text \<open>What a timer does when it fires: the two \<^verbatim>\<open>setTimeout\<close> callbacks of the class.\<close>

datatype TimerTask =
    ActionTimeout (taskEcho: string) (taskAction: string)
  | Reconnect

record Timer =
  timerId :: nat
  task :: TimerTask
  delayMs :: nat

record OneBotActionRequest =
  action :: string
  params :: "Json option"
  echo :: string
  requestSelf :: "OneBotSelf option"

text \<open>
  What the client does to the outside: log lines, the callbacks of its options, the
  settling of the promise that \<open>sendAction\<close> returned for an echo, and the calls on sockets.
\<close>

datatype Effect =
    LogInfo string
  | LogWarn string
  | LogError string
  | OnOpen
  | OnClose nat string
  | OnError string
  | OnEvent Json
  | Resolve string Json
  | Reject string string
  | NewWebSocket nat string "string option"
  | SocketSend nat OneBotActionRequest
  | SocketClose nat
  | Throw string

text \<open>
  The fields of \<^verbatim>\<open>OneBotClient\<close>, and behind them the part of the runtime that its methods
  touch: the sockets it created (socket \<open>i\<close> is \<open>sockets ! i\<close>, with its ready state), the
  timers that are set and have neither fired nor been cleared, and the state of the abort
  signal. \<open>pending\<close> is the \<^verbatim>\<open>Map\<close> in insertion order; an entry holds the timer of the action,
  its \<^verbatim>\<open>resolve\<close> and \<^verbatim>\<open>reject\<close> being those of the promise of that echo.
\<close>

record OneBotClient =
  wsUrl :: string
  accessToken :: "string option"
  reconnectDelayMs :: nat
  abortSignal :: "bool option"
  abortListeners :: nat
  ws :: "nat option"
  stopped :: bool
  reconnectTimer :: "nat option"
  actionCounter :: nat
  pending :: "(string \<times> nat) list"
  self :: "OneBotSelf option"
  sockets :: "ReadyState list"
  timers :: "Timer list"
  nextTimerId :: nat

record OneBotClientOptions =
  optWsUrl :: string
  optAccessToken :: "string option"
  optAbortSignal :: "bool option"
  optReconnectDelayMs :: "nat option"

definition newOneBotClient :: "OneBotClientOptions \<Rightarrow> OneBotClient" where
  "newOneBotClient options =
     \<lparr>wsUrl = optWsUrl options,
      accessToken = optAccessToken options,
      reconnectDelayMs = max 1000 (case optReconnectDelayMs options of None \<Rightarrow> 2500 | Some d \<Rightarrow> d),
      abortSignal = optAbortSignal options,
      abortListeners = 0,
      ws = None,
      stopped = False,
      reconnectTimer = None,
      actionCounter = 0,
      pending = [],
      self = None,
      sockets = [],
      timers = [],
      nextTimerId = 0\<rparr>"

subsection \<open>Timers and the map of pending actions\<close>

definition setTimeout :: "TimerTask \<Rightarrow> nat \<Rightarrow> OneBotClient \<Rightarrow> nat \<times> OneBotClient" where
  "setTimeout t d c =
     (nextTimerId c,
      c\<lparr>timers := timers c @ [\<lparr>timerId = nextTimerId c, task = t, delayMs = d\<rparr>],
        nextTimerId := Suc (nextTimerId c)\<rparr>)"

definition clearTimeout :: "nat \<Rightarrow> OneBotClient \<Rightarrow> OneBotClient" where
  "clearTimeout i c = c\<lparr>timers := filter (\<lambda>t. timerId t \<noteq> i) (timers c)\<rparr>"

definition mapSet :: "string \<Rightarrow> nat \<Rightarrow> (string \<times> nat) list \<Rightarrow> (string \<times> nat) list" where
  "mapSet k v m =
     (if k \<in> fst ` set m then map (\<lambda>(k', v'). if k' = k then (k', v) else (k', v')) m
      else m @ [(k, v)])"

definition mapDelete :: "string \<Rightarrow> (string \<times> nat) list \<Rightarrow> (string \<times> nat) list" where
  "mapDelete k m = filter (\<lambda>(k', v'). k' \<noteq> k) m"

text \<open>Decimal digits of a number, as a template literal prints it.\<close>

fun digitsOf :: "nat \<Rightarrow> string" where
  "digitsOf n =
     (if n < 10 then [char_of (48 + n)]
      else digitsOf (n div 10) @ [char_of (48 + n mod 10)])"

declare digitsOf.simps [simp del]

definition stringOfInt :: "int \<Rightarrow> string" where
  "stringOfInt i = (if i < 0 then CHR ''-'' # digitsOf (nat (- i)) else digitsOf (nat i))"

subsection \<open>Methods\<close>

definition isOpen :: "OneBotClient \<Rightarrow> bool" where
  "isOpen c =
     (case ws c of None \<Rightarrow> False | Some i \<Rightarrow> i < length (sockets c) \<and> sockets c ! i = OPEN)"

definition getSelf :: "OneBotClient \<Rightarrow> OneBotSelf option" where
  "getSelf c = self c"

definition setSelf :: "OneBotSelf option \<Rightarrow> OneBotClient \<Rightarrow> OneBotClient" where
  "setSelf s c = c\<lparr>self := s\<rparr>"

text \<open>
  \<open>rejectAllPending\<close>: every entry, in the order of the map, has its timer cleared and its
  promise rejected; then the map is emptied.
\<close>

fun rejectEntries :: "string \<Rightarrow> (string \<times> nat) list \<Rightarrow> OneBotClient \<Rightarrow> OneBotClient \<times> Effect list" where
  "rejectEntries error [] c = (c, [])"
| "rejectEntries error ((e, t) # entries) c =
     (let (c', effs) = rejectEntries error entries (clearTimeout t c)
      in (c', Reject e error # effs))"

definition rejectAllPending :: "string \<Rightarrow> OneBotClient \<Rightarrow> OneBotClient \<times> Effect list" where
  "rejectAllPending error c =
     (let (c', effs) = rejectEntries error (pending c) c
      in (c'\<lparr>pending := []\<rparr>, effs))"

definition clearReconnectTimer :: "OneBotClient \<Rightarrow> OneBotClient" where
  "clearReconnectTimer c =
     (case reconnectTimer c of
        None \<Rightarrow> c
      | Some t \<Rightarrow> (clearTimeout t c)\<lparr>reconnectTimer := None\<rparr>)"

text \<open>
  \<open>closeSocket\<close>: the field is cleared and \<^verbatim>\<open>close()\<close> is called on the socket, which leaves
  the open and connecting states.
\<close>

definition closeSocket :: "OneBotClient \<Rightarrow> OneBotClient \<times> Effect list" where
  "closeSocket c =
     (case ws c of
        None \<Rightarrow> (c, [])
      | Some i \<Rightarrow>
          (c\<lparr>ws := None,
             sockets := (if i < length (sockets c) \<and> sockets c ! i = CLOSED then sockets c
                         else (sockets c)[i := CLOSING])\<rparr>,
           [SocketClose i]))"

definition stop :: "OneBotClient \<Rightarrow> OneBotClient \<times> Effect list" where
  "stop c =
     (let c1 = clearReconnectTimer (c\<lparr>stopped := True\<rparr>);
          (c2, e2) = closeSocket c1;
          (c3, e3) = rejectAllPending ''OneBot connection stopped'' c2
      in (c3, e2 @ e3))"

text \<open>
  \<open>connect\<close>: nothing when stopped. Otherwise the line with the sanitized URL is logged, the
  socket is created and stored, the four handlers are attached to it, and one more listener
  is put on the abort signal. When the constructor throws, the error leaves \<open>connect\<close> after
  the log line.
\<close>

definition connectLogLine :: "'u Platform \<Rightarrow> string \<Rightarrow> string option \<Rightarrow> string" where
  "connectLogLine lib url token =
     ''onebot: connecting to '' @ sanitizeUrl lib (withAccessToken lib url token)"

definition connect :: "'u Platform \<Rightarrow> OneBotClient \<Rightarrow> OneBotClient \<times> Effect list" where
  "connect lib c =
     (if stopped c then (c, [])
      else
        (let url = withAccessToken lib (wsUrl c) (accessToken c);
             headers = (if truthy (accessToken c) then Some (''Bearer '' @ the (accessToken c)) else None);
             line = LogInfo (connectLogLine lib (wsUrl c) (accessToken c))
         in (case webSocketThrows lib url of
               Some err \<Rightarrow> (c, [line, Throw err])
             | None \<Rightarrow>
                 (c\<lparr>ws := Some (length (sockets c)),
                    sockets := sockets c @ [CONNECTING],
                    abortListeners := (if abortSignal c = None then abortListeners c
                                       else Suc (abortListeners c))\<rparr>,
                  [line, NewWebSocket (length (sockets c)) url headers]))))"

definition start :: "'u Platform \<Rightarrow> OneBotClient \<Rightarrow> OneBotClient \<times> Effect list" where
  "start lib c =
     (if abortSignal c = Some True then (c\<lparr>stopped := True\<rparr>, [])
      else connect lib c)"

definition scheduleReconnect :: "OneBotClient \<Rightarrow> OneBotClient" where
  "scheduleReconnect c =
     (if reconnectTimer c \<noteq> None \<or> stopped c then c
      else (let (t, c') = setTimeout Reconnect (reconnectDelayMs c) c
            in c'\<lparr>reconnectTimer := Some t\<rparr>))"

text \<open>The echo of an action: \<^verbatim>\<open>`onebot:${Date.now()}:${this.actionCounter++}`\<close>.\<close>

definition echoToken :: "nat \<Rightarrow> nat \<Rightarrow> string" where
  "echoToken now counter = ''onebot:'' @ digitsOf now @ '':'' @ digitsOf counter"

record SendActionOptions =
  timeoutMs :: "nat option"
  optSelf :: "OneBotSelf option"

text \<open>\<^verbatim>\<open>options?.timeoutMs ?? 10_000\<close>.\<close>

definition actionTimeoutMs :: "SendActionOptions option \<Rightarrow> nat" where
  "actionTimeoutMs options =
     (case (case options of None \<Rightarrow> None | Some opts \<Rightarrow> timeoutMs opts) of
        Some t \<Rightarrow> t
      | None \<Rightarrow> 10000)"

text \<open>
  The result of calling \<open>sendAction\<close>: the error it throws before anything is sent, or the
  echo whose promise it returns. \<open>now\<close> is the value of \<^verbatim>\<open>Date.now()\<close>; \<open>sendThrows\<close> is the
  message of the error that \<^verbatim>\<open>ws.send\<close> throws, if it does.
\<close>

datatype SendActionResult = NotConnected string | Awaiting string

definition sendAction ::
  "string \<Rightarrow> Json option \<Rightarrow> SendActionOptions option \<Rightarrow> nat \<Rightarrow> string option \<Rightarrow> OneBotClient
   \<Rightarrow> SendActionResult \<times> OneBotClient \<times> Effect list" where
  "sendAction act ps options now sendThrows c =
     (if \<not> isOpen c then (NotConnected ''OneBot is not connected'', c, [])
      else
        (let e = echoToken now (actionCounter c);
             c1 = c\<lparr>actionCounter := Suc (actionCounter c)\<rparr>;
             s = (case (case options of None \<Rightarrow> None | Some opts \<Rightarrow> optSelf opts) of
                    Some s' \<Rightarrow> Some s'
                  | None \<Rightarrow> self c1);
             request = \<lparr>action = act, params = ps, echo = e, requestSelf = s\<rparr>;
             ms = actionTimeoutMs options;
             (t, c2) = setTimeout (ActionTimeout e act) ms c1;
             c3 = c2\<lparr>pending := mapSet e t (pending c2)\<rparr>
         in (case sendThrows of
               None \<Rightarrow> (Awaiting e, c3, [SocketSend (the (ws c3)) request])
             | Some err \<Rightarrow>
                 (Awaiting e,
                  (clearTimeout t c3)\<lparr>pending := mapDelete e (pending c3)\<rparr>,
                  [Reject e err]))))"

definition handlePayload :: "Json \<Rightarrow> OneBotClient \<Rightarrow> OneBotClient \<times> Effect list" where
  "handlePayload payload c =
     (if \<not> isObjectValue payload then (c, [])
      else if stringProp payload ''status'' \<noteq> None \<and> stringProp payload ''echo'' \<noteq> None
      then (case map_of (pending c) (the (stringProp payload ''echo'')) of
              Some t \<Rightarrow>
                ((clearTimeout t c)\<lparr>pending := mapDelete (the (stringProp payload ''echo'')) (pending c)\<rparr>,
                 [Resolve (the (stringProp payload ''echo'')) payload])
            | None \<Rightarrow> (c, []))
      else if stringProp payload ''type'' \<noteq> None \<and> stringProp payload ''detail_type'' \<noteq> None
      then (c, [OnEvent payload])
      else (c, []))"

subsection \<open>Events of the runtime\<close>

text \<open>
  The handlers that \<open>connect\<close> attaches to socket \<open>i\<close>. The socket changes its ready state
  before its handler runs. A message is the parsed payload, or the text of the error of
  \<^verbatim>\<open>JSON.parse\<close>.
\<close>

definition onSocketOpen :: "nat \<Rightarrow> OneBotClient \<Rightarrow> OneBotClient \<times> Effect list" where
  "onSocketOpen i c =
     (c\<lparr>sockets := (sockets c)[i := OPEN]\<rparr>, [LogInfo ''onebot: websocket connected'', OnOpen])"

definition onSocketMessage :: "string + Json \<Rightarrow> OneBotClient \<Rightarrow> OneBotClient \<times> Effect list" where
  "onSocketMessage data c =
     (case data of
        Inl err \<Rightarrow> (c, [LogWarn (''onebot: failed to parse message: '' @ err)])
      | Inr payload \<Rightarrow> handlePayload payload c)"

definition onSocketError :: "string \<Rightarrow> OneBotClient \<Rightarrow> OneBotClient \<times> Effect list" where
  "onSocketError message c =
     (c, [LogError (''onebot: websocket error: '' @ message), OnError message])"

definition onSocketClose :: "nat \<Rightarrow> nat \<Rightarrow> string \<Rightarrow> OneBotClient \<Rightarrow> OneBotClient \<times> Effect list" where
  "onSocketClose i code reasonText c =
     (let c0 = c\<lparr>sockets := (sockets c)[i := CLOSED]\<rparr>;
          (c1, e1) = rejectAllPending ''OneBot connection closed'' c0;
          c2 = (if \<not> stopped c1 then scheduleReconnect c1 else c1)
      in (c2,
          [LogWarn (''onebot: websocket closed ('' @ digitsOf code @ '') '' @ reasonText),
           OnClose code reasonText] @ e1))"

text \<open>
  A timer fires only while it is set; it is then no longer set. The reconnect callback
  clears the field and connects; the timeout callback of an action deletes the entry of
  its echo and rejects its promise.
\<close>

definition onTimer :: "'u Platform \<Rightarrow> nat \<Rightarrow> OneBotClient \<Rightarrow> OneBotClient \<times> Effect list" where
  "onTimer lib i c =
     (case find (\<lambda>t. timerId t = i) (timers c) of
        None \<Rightarrow> (c, [])
      | Some t \<Rightarrow>
          (let c0 = clearTimeout i c
           in (case task t of
                 Reconnect \<Rightarrow> connect lib (c0\<lparr>reconnectTimer := None\<rparr>)
               | ActionTimeout e act \<Rightarrow>
                   (c0\<lparr>pending := mapDelete e (pending c0)\<rparr>,
                    [Reject e (''OneBot action timeout: '' @ act)]))))"

text \<open>The abort signal fires: each listener that \<open>connect\<close> registered calls \<open>stop\<close>, once.\<close>

fun stopTimes :: "nat \<Rightarrow> OneBotClient \<Rightarrow> OneBotClient \<times> Effect list" where
  "stopTimes 0 c = (c, [])"
| "stopTimes (Suc n) c =
     (let (c1, e1) = stop c; (c2, e2) = stopTimes n c1 in (c2, e1 @ e2))"

definition onAbort :: "OneBotClient \<Rightarrow> OneBotClient \<times> Effect list" where
  "onAbort c =
     (if abortSignal c \<noteq> Some False then (c, [])
      else stopTimes (abortListeners c) (c\<lparr>abortSignal := Some True, abortListeners := 0\<rparr>))"

text \<open>One step of a client: a call of a public method, or an event of the runtime.\<close>

datatype Step =
    Start
  | Stop
  | SetSelf "OneBotSelf option"
  | SendAction string "Json option" "SendActionOptions option" nat "string option"
  | SocketOpened nat
  | SocketMessage nat "string + Json"
  | SocketError nat string
  | SocketClosed nat nat string
  | TimerFired nat
  | Aborted

text \<open>
  A socket event comes from a socket that exists and is not yet closed; a closed socket
  emits nothing more, and only a connecting socket opens.
\<close>

definition socketLive :: "nat \<Rightarrow> OneBotClient \<Rightarrow> bool" where
  "socketLive i c = (i < length (sockets c) \<and> sockets c ! i \<noteq> CLOSED)"

definition socketConnecting :: "nat \<Rightarrow> OneBotClient \<Rightarrow> bool" where
  "socketConnecting i c = (i < length (sockets c) \<and> sockets c ! i = CONNECTING)"

fun step :: "'u Platform \<Rightarrow> Step \<Rightarrow> OneBotClient \<Rightarrow> OneBotClient \<times> Effect list" where
  "step lib Start c = start lib c"
| "step lib Stop c = stop c"
| "step lib (SetSelf s) c = (setSelf s c, [])"
| "step lib (SendAction act ps options now sendThrows) c =
     (case sendAction act ps options now sendThrows c of (r, c', effs) \<Rightarrow> (c', effs))"
| "step lib (SocketOpened i) c = (if socketConnecting i c then onSocketOpen i c else (c, []))"
| "step lib (SocketMessage i data) c = (if socketLive i c then onSocketMessage data c else (c, []))"
| "step lib (SocketError i message) c = (if socketLive i c then onSocketError message c else (c, []))"
| "step lib (SocketClosed i code reasonText) c =
     (if socketLive i c then onSocketClose i code reasonText c else (c, []))"
| "step lib (TimerFired i) c = onTimer lib i c"
| "step lib Aborted c = onAbort c"

fun run :: "'u Platform \<Rightarrow> Step list \<Rightarrow> OneBotClient \<Rightarrow> OneBotClient \<times> Effect list" where
  "run lib [] c = (c, [])"
| "run lib (s # ss) c =
     (let (c1, e1) = step lib s c; (c2, e2) = run lib ss c1 in (c2, e1 @ e2))"

section \<open>The client registry\<close>

type_synonym Registry = "string \<Rightarrow> OneBotClient option"

definition setOneBotClient :: "string \<Rightarrow> OneBotClient \<Rightarrow> Registry \<Rightarrow> Registry" where
  "setOneBotClient accountId client clients = clients(accountId \<mapsto> client)"

definition getOneBotClient :: "Registry \<Rightarrow> string \<Rightarrow> OneBotClient option" where
  "getOneBotClient clients accountId = clients accountId"

definition deleteOneBotClient :: "string \<Rightarrow> Registry \<Rightarrow> Registry" where
  "deleteOneBotClient accountId clients = clients(accountId := None)"

definition clearOneBotClients :: "Registry \<Rightarrow> Registry" where
  "clearOneBotClients clients = Map.empty"

section \<open>Accounts\<close>

datatype DmPolicy = DmPairing | DmAllowlist | DmOpen | DmDisabled

datatype GroupPolicy = GroupAllowlist | GroupOpen | GroupDisabled

fun dmPolicyName :: "DmPolicy \<Rightarrow> string" where
  "dmPolicyName DmPairing = ''pairing''"
| "dmPolicyName DmAllowlist = ''allowlist''"
| "dmPolicyName DmOpen = ''open''"
| "dmPolicyName DmDisabled = ''disabled''"

text \<open>An entry of an allow list is a string or a number (an integer id).\<close>

datatype AllowEntry = EntryString string | EntryNumber int

fun stringOfEntry :: "AllowEntry \<Rightarrow> string" where
  "stringOfEntry (EntryString s) = s"
| "stringOfEntry (EntryNumber n) = stringOfInt n"

record OneBotGroupConfig =
  enabled :: "bool option"
  requireMention :: "bool option"

text \<open>
  The fields of the account configuration that the gate reads. \<open>groups\<close> is the object as the
  list of its own properties; a property may hold \<^verbatim>\<open>undefined\<close>.
\<close>

record OneBotAccountConfig =
  dmPolicy :: "DmPolicy option"
  allowFrom :: "AllowEntry list option"
  groupAllowFrom :: "AllowEntry list option"
  groupPolicy :: "GroupPolicy option"
  groups :: "(string \<times> OneBotGroupConfig option) list option"

record ResolvedOneBotAccount =
  accountId :: string
  accountPlatform :: "string option"
  accountSelfId :: "string option"
  accountRequireMention :: "bool option"
  config :: OneBotAccountConfig

section \<open>The outbound adapter\<close>

definition CHANNEL_ID :: string where
  "CHANNEL_ID = ''onebot''"

definition buildTextSegments :: "string \<Rightarrow> Json" where
  "buildTextSegments text =
     JArr [JObj [(''type'', JStr ''text''), (''data'', JObj [(''text'', JStr text)])]]"

text \<open>\<^verbatim>\<open>a?.trim() || b\<close>: the trimmed string when it is not empty, else \<open>b\<close>.\<close>

definition trimmedOr :: "string option \<Rightarrow> string option \<Rightarrow> string option" where
  "trimmedOr a b = (if truthy (map_option trim a) then map_option trim a else b)"

definition resolveSelf :: "ResolvedOneBotAccount \<Rightarrow> OneBotSelf option \<Rightarrow> OneBotSelf option" where
  "resolveSelf account fallback =
     (let p = trimmedOr (accountPlatform account)
                (case fallback of None \<Rightarrow> None | Some f \<Rightarrow> self_platform f);
          u = trimmedOr (accountSelfId account)
                (case fallback of None \<Rightarrow> None | Some f \<Rightarrow> self_user_id f)
      in if \<not> truthy p \<and> \<not> truthy u then None
         else Some \<lparr>self_platform = (if truthy p then p else None),
                    self_user_id = (if truthy u then u else None)\<rparr>)"

record SendResult =
  channel :: string
  to :: string

text \<open>The request of \<open>sendOneBotMessage\<close>: its detail type, the message, and the ids of the target.\<close>

definition sendMessageRequest :: "OneBotTarget \<Rightarrow> string \<Rightarrow> Json" where
  "sendMessageRequest parsed trimmed =
     JObj ([(''detail_type'',
             JStr (case parsed of User _ \<Rightarrow> ''private'' | Group _ \<Rightarrow> ''group''
                   | Channel _ _ \<Rightarrow> ''channel'')),
            (''message'', buildTextSegments trimmed)]
           @ (case parsed of
                User u \<Rightarrow> [(''user_id'', JStr u)]
              | Group g \<Rightarrow> [(''group_id'', JStr g)]
              | Channel g c \<Rightarrow> [(''guild_id'', JStr g), (''channel_id'', JStr c)]))"

text \<open>
  The end of \<open>sendOneBotMessage\<close>, once the response is there: a status other than
  \<^verbatim>\<open>ok\<close> and a return code other than 0 are thrown, with the message of the response when
  it has one.
\<close>

definition sendMessageResponse :: "string \<Rightarrow> Json \<Rightarrow> string + SendResult" where
  "sendMessageResponse target response =
     (let status = stringProp response ''status'';
          message = stringProp response ''message''
      in if truthy status \<and> the status \<noteq> ''ok''
         then Inl (if truthy message then the message
                   else ''OneBot send_message failed ('' @ the status @ '')'')
         else (case getProp response ''retcode'' of
                 Some (JNum retcode) \<Rightarrow>
                   if retcode \<noteq> 0
                   then Inl (if truthy message then the message
                             else ''OneBot send_message retcode '' @ stringOfInt retcode)
                   else Inr \<lparr>channel = CHANNEL_ID, to = target\<rparr>
               | _ \<Rightarrow> Inr \<lparr>channel = CHANNEL_ID, to = target\<rparr>))"

text \<open>
  \<open>sendOneBotMessage\<close> returns its result or the message of the error it throws, with the
  registry after the call and what the client did. The call waits for the promise of
  \<open>sendAction\<close>; \<open>settles\<close> is how that promise settles (rejected with a message, or resolved
  with the response), \<open>now\<close> and \<open>sendThrows\<close> are as for \<open>sendAction\<close>.
\<close>

definition sendOneBotMessage ::
  "Registry \<Rightarrow> ResolvedOneBotAccount \<Rightarrow> string \<Rightarrow> string \<Rightarrow> nat \<Rightarrow> string option \<Rightarrow> string + Json
   \<Rightarrow> (string + SendResult) \<times> Registry \<times> Effect list" where
  "sendOneBotMessage clients account target text now sendThrows settles =
     (case parseOneBotTarget target of
        None \<Rightarrow> (Inl (''Invalid OneBot target. Use '' @ formatOneBotTargetHint), clients, [])
      | Some parsed \<Rightarrow>
          (case getOneBotClient clients (accountId account) of
             None \<Rightarrow> (Inl ''OneBot client is not connected'', clients, [])
           | Some client \<Rightarrow>
               if trim text = [] then (Inr \<lparr>channel = CHANNEL_ID, to = target\<rparr>, clients, [])
               else
                 (case sendAction ''send_message'' (Some (sendMessageRequest parsed (trim text)))
                         (Some \<lparr>timeoutMs = None, optSelf = resolveSelf account (getSelf client)\<rparr>)
                         now sendThrows client of
                    (NotConnected err, client', effs) \<Rightarrow>
                      (Inl err, clients(accountId account \<mapsto> client'), effs)
                  | (Awaiting e, client', effs) \<Rightarrow>
                      (case (case sendThrows of Some err \<Rightarrow> Inl err | None \<Rightarrow> settles) of
                         Inl err \<Rightarrow> (Inl err, clients(accountId account \<mapsto> client'), effs)
                       | Inr response \<Rightarrow>
                           (sendMessageResponse target response,
                            clients(accountId account \<mapsto> client'), effs)))))"

section \<open>The inbound gate\<close>

subsection \<open>Allow lists\<close>

text \<open>
  \<^verbatim>\<open>USER_PREFIX_RE = /^(onebot:)?(user:|private:|dm:|qq:)?/i\<close>: both groups are optional and
  greedy, and nothing follows them, so each is dropped when it is there.
\<close>

definition normalizeOneBotUserId :: "string \<Rightarrow> string" where
  "normalizeOneBotUserId input =
     (let t = trim input;
          t1 = (if matchesPREFIX_RE t then drop 7 t else t)
      in (case find (\<lambda>p. startsWith (toLowerCase t1) p) [''user:'', ''private:'', ''dm:'', ''qq:''] of
            Some p \<Rightarrow> drop (length p) t1
          | None \<Rightarrow> t1))"

record NormalizedAllowlist =
  entries :: "string set"
  hasWildcard :: bool

definition normalizeAllowlistStep :: "NormalizedAllowlist \<Rightarrow> AllowEntry \<Rightarrow> NormalizedAllowlist" where
  "normalizeAllowlistStep acc entry =
     (let raw = trim (stringOfEntry entry)
      in if raw = [] then acc
         else if raw = ''*'' then acc\<lparr>hasWildcard := True\<rparr>
         else acc\<lparr>entries := insert (toLowerCase (normalizeOneBotUserId raw)) (entries acc)\<rparr>)"

definition normalizeAllowlist :: "AllowEntry list option \<Rightarrow> NormalizedAllowlist" where
  "normalizeAllowlist es =
     foldl normalizeAllowlistStep \<lparr>entries = {}, hasWildcard = False\<rparr>
       (case es of None \<Rightarrow> [] | Some xs \<Rightarrow> xs)"

definition mergeAllowlistsStep ::
  "NormalizedAllowlist \<Rightarrow> NormalizedAllowlist option \<Rightarrow> NormalizedAllowlist" where
  "mergeAllowlistsStep acc l =
     (case l of
        None \<Rightarrow> acc
      | Some al \<Rightarrow>
          \<lparr>entries = entries acc \<union> entries al,
           hasWildcard = (if hasWildcard al then True else hasWildcard acc)\<rparr>)"

definition mergeAllowlists :: "NormalizedAllowlist option list \<Rightarrow> NormalizedAllowlist" where
  "mergeAllowlists ls = foldl mergeAllowlistsStep \<lparr>entries = {}, hasWildcard = False\<rparr> ls"

definition isAllowed :: "NormalizedAllowlist \<Rightarrow> string option \<Rightarrow> bool" where
  "isAllowed al senderId =
     (if hasWildcard al then True
      else (case senderId of
              None \<Rightarrow> False
            | Some s \<Rightarrow>
                (let candidate = toLowerCase (trim s)
                 in if candidate = [] then False else candidate \<in> entries al)))"

subsection \<open>Groups\<close>

record GroupState =
  allowlistEnabled :: bool
  allowed :: bool
  groupConfig :: "OneBotGroupConfig option"

text \<open>
  \<open>groups[k]\<close> on the configured object: the value of its own property \<open>k\<close>, when that is
  not \<^verbatim>\<open>undefined\<close> (the names of \<^verbatim>\<open>Object.prototype\<close> are not group keys).
\<close>

definition groupsLookup :: "(string \<times> OneBotGroupConfig option) list \<Rightarrow> string \<Rightarrow> OneBotGroupConfig option" where
  "groupsLookup gs k = (case map_of gs k of Some (Some cfg) \<Rightarrow> Some cfg | _ \<Rightarrow> None)"

definition hasOwn :: "(string \<times> OneBotGroupConfig option) list \<Rightarrow> string \<Rightarrow> bool" where
  "hasOwn gs k = (k \<in> set (map fst gs))"

definition resolveGroupConfig ::
  "(string \<times> OneBotGroupConfig option) list option \<Rightarrow> string option \<Rightarrow> GroupState" where
  "resolveGroupConfig gso key =
     (let gs = (case gso of None \<Rightarrow> [] | Some g \<Rightarrow> g);
          enabledList = (map fst gs \<noteq> []);
          groupKey = (case key of None \<Rightarrow> [] | Some k \<Rightarrow> k);
          directConfig = (if groupKey \<noteq> [] then groupsLookup gs groupKey else None);
          wildcardConfig = groupsLookup gs ''*''
      in \<lparr>allowlistEnabled = enabledList,
          allowed = (\<not> enabledList \<or> (groupKey \<noteq> [] \<and> hasOwn gs groupKey) \<or> hasOwn gs ''*''),
          groupConfig = (case directConfig of Some cfg \<Rightarrow> Some cfg | None \<Rightarrow> wildcardConfig)\<rparr>)"

subsection \<open>Events\<close>

record OneBotMessageSegment =
  segmentType :: string
  segmentData :: "(string \<times> Json) list option"

record OneBotMessageEvent =
  detail_type :: "string option"
  user_id :: "string option"
  group_id :: "string option"
  guild_id :: "string option"
  channel_id :: "string option"
  eventSelf :: "OneBotSelf option"
  message :: "OneBotMessageSegment list option"
  alt_message :: "string option"
  qq_nickname :: "string option"
  user_name :: "string option"

definition segmentText :: "OneBotMessageSegment \<Rightarrow> string" where
  "segmentText segment =
     (let d = JObj (case segmentData segment of None \<Rightarrow> [] | Some kvs \<Rightarrow> kvs)
      in if segmentType segment = ''text''
         then (case stringProp d ''text'' of Some t \<Rightarrow> t | None \<Rightarrow> [])
         else if segmentType segment = ''mention''
         then (let u = (case stringProp d ''user_id'' of Some x \<Rightarrow> x | None \<Rightarrow> [])
               in if u \<noteq> [] then ''@'' @ u else ''@mention'')
         else if segmentType segment = ''mention_all'' then ''@all''
         else ''<'' @ segmentType segment @ ''>'')"

definition resolveMessageText :: "OneBotMessageEvent \<Rightarrow> string \<times> OneBotMessageSegment list" where
  "resolveMessageText event =
     (let segments = (case message event of None \<Rightarrow> [] | Some m \<Rightarrow> m);
          alt = (case alt_message event of None \<Rightarrow> [] | Some a \<Rightarrow> trim a)
      in if alt \<noteq> [] then (alt, segments)
         else (trim (concat (map segmentText segments)), segments))"

definition resolveSenderName :: "OneBotMessageEvent \<Rightarrow> string option" where
  "resolveSenderName event =
     (if truthy (map_option trim (qq_nickname event)) then map_option trim (qq_nickname event)
      else if truthy (map_option trim (user_name event)) then map_option trim (user_name event)
      else None)"

subsection \<open>The host\<close>

text \<open>
  The services of the host that the gate calls before it admits an event, and what the
  runtime decides for a pairing reply: \<open>readAllowFromStore\<close> is the stored list (\<open>None\<close> when
  the read fails), \<open>upsertPairingRequest\<close> gives the code and whether the request is new,
  \<open>buildPairingReply\<close> makes the text from the id line and the code; \<open>replyNow\<close>,
  \<open>replySendThrows\<close> and \<open>replySettles\<close> are the three last arguments of \<open>sendOneBotMessage\<close>.
\<close>

record Host =
  readAllowFromStore :: "string list option"
  upsertPairingRequest :: "string \<Rightarrow> string option \<Rightarrow> string \<times> bool"
  buildPairingReply :: "string \<Rightarrow> string \<Rightarrow> string"
  replyNow :: nat
  replySendThrows :: "string option"
  replySettles :: "string + Json"

datatype GateEffect =
    RuntimeLog string
  | RuntimeError string
  | StatusLastInboundAt
  | StatusLastOutboundAt
  | UpsertPairingRequest string "string option"
  | ClientEffect Effect

text \<open>
  Where \<open>handleOneBotMessage\<close> ends, as far as it is modelled: it has returned, or the event
  is admitted and goes on to the command gate, the route and the mention gate of the host.
\<close>

datatype GateOutcome = Returned | Admitted

text \<open>\<^verbatim>\<open>x?.toString().trim() || null\<close>.\<close>

definition trimmedOrNull :: "string option \<Rightarrow> string option" where
  "trimmedOrNull x = trimmedOr x None"

text \<open>A value in a template literal: null prints as \<^verbatim>\<open>null\<close>.\<close>

definition inTemplate :: "string option \<Rightarrow> string" where
  "inTemplate x = (case x of None \<Rightarrow> ''null'' | Some s \<Rightarrow> s)"

subsection \<open>The effective allow lists\<close>

definition storeAllowList :: "Host \<Rightarrow> NormalizedAllowlist" where
  "storeAllowList host =
     normalizeAllowlist
       (Some (case readAllowFromStore host of None \<Rightarrow> [] | Some xs \<Rightarrow> map EntryString xs))"

definition effectiveAllowFrom :: "Host \<Rightarrow> OneBotAccountConfig \<Rightarrow> NormalizedAllowlist" where
  "effectiveAllowFrom host cfg =
     mergeAllowlists [Some (normalizeAllowlist (allowFrom cfg)), Some (storeAllowList host)]"

definition baseGroupAllowFrom :: "OneBotAccountConfig \<Rightarrow> NormalizedAllowlist" where
  "baseGroupAllowFrom cfg =
     (if (case groupAllowFrom cfg of None \<Rightarrow> False | Some xs \<Rightarrow> length xs > 0)
      then normalizeAllowlist (groupAllowFrom cfg)
      else normalizeAllowlist (allowFrom cfg))"

definition effectiveGroupAllowFrom :: "Host \<Rightarrow> OneBotAccountConfig \<Rightarrow> NormalizedAllowlist" where
  "effectiveGroupAllowFrom host cfg =
     mergeAllowlists [Some (baseGroupAllowFrom cfg), Some (storeAllowList host)]"

subsection \<open>Admission\<close>

text \<open>
  The group branch of \<open>handleOneBotMessage\<close>, for a group or channel event: first the list
  of configured groups, then (\<open>groupPolicyChecks\<close>) the flag of the group, the group policy and
  the sender.
\<close>

definition groupPolicyChecks ::
  "Host \<Rightarrow> OneBotAccountConfig \<Rightarrow> GroupState \<Rightarrow> string \<Rightarrow> string \<Rightarrow> GateOutcome \<times> GateEffect list" where
  "groupPolicyChecks host cfg groupState label senderId =
     (if (case groupConfig groupState of None \<Rightarrow> False | Some g \<Rightarrow> enabled g = Some False)
      then (Returned, [RuntimeLog (''onebot: drop group '' @ label @ '' (disabled)'')])
      else
        (let policy = (case groupPolicy cfg of None \<Rightarrow> GroupAllowlist | Some p \<Rightarrow> p)
         in if policy = GroupDisabled
            then (Returned,
                  [RuntimeLog (''onebot: drop group '' @ label @ '' (groupPolicy=disabled)'')])
            else if policy = GroupAllowlist
                    \<and> \<not> isAllowed (effectiveGroupAllowFrom host cfg) (Some senderId)
            then (Returned,
                  [RuntimeLog (''onebot: drop group sender '' @ senderId
                               @ '' (groupPolicy=allowlist, not allowed)'')])
            else (Admitted, [])))"

definition groupAdmission ::
  "Host \<Rightarrow> OneBotAccountConfig \<Rightarrow> string option \<Rightarrow> string \<Rightarrow> string \<Rightarrow> GateOutcome \<times> GateEffect list" where
  "groupAdmission host cfg groupKey conversationId senderId =
     (let groupState = resolveGroupConfig (groups cfg) groupKey;
          label = (case groupKey of Some k \<Rightarrow> k | None \<Rightarrow> conversationId)
      in if \<not> allowed groupState
         then (Returned, [RuntimeLog (''onebot: drop group '' @ label @ '' (not allowlisted)'')])
         else groupPolicyChecks host cfg groupState label senderId)"

text \<open>The pairing reply of the direct-message branch, sent when the request is new.\<close>

definition pairingReply ::
  "Host \<Rightarrow> Registry \<Rightarrow> ResolvedOneBotAccount \<Rightarrow> string \<Rightarrow> string \<Rightarrow> Registry \<times> GateEffect list" where
  "pairingReply host clients account senderId code =
     (case sendOneBotMessage clients account (''user:'' @ senderId)
             (buildPairingReply host (''Your QQ user id: '' @ senderId) code)
             (replyNow host) (replySendThrows host) (replySettles host) of
        (Inr _, clients', effs) \<Rightarrow> (clients', map ClientEffect effs @ [StatusLastOutboundAt])
      | (Inl err, clients', effs) \<Rightarrow>
          (clients',
           map ClientEffect effs
           @ [RuntimeError (''onebot: pairing reply failed for '' @ senderId @ '': Error: '' @ err)]))"

text \<open>The direct-message branch of \<open>handleOneBotMessage\<close>.\<close>

definition dmAdmission ::
  "Host \<Rightarrow> Registry \<Rightarrow> ResolvedOneBotAccount \<Rightarrow> OneBotMessageEvent \<Rightarrow> string
   \<Rightarrow> GateOutcome \<times> Registry \<times> GateEffect list" where
  "dmAdmission host clients account event senderId =
     (let policy = (case dmPolicy (config account) of None \<Rightarrow> DmPairing | Some p \<Rightarrow> p)
      in if policy = DmDisabled
         then (Returned, clients,
               [RuntimeLog (''onebot: drop DM sender '' @ senderId @ '' (dmPolicy=disabled)'')])
         else if policy \<noteq> DmOpen
                 \<and> \<not> isAllowed (effectiveAllowFrom host (config account)) (Some senderId)
         then
           (let dropLine = RuntimeLog (''onebot: drop DM sender '' @ senderId
                                       @ '' (dmPolicy='' @ dmPolicyName policy @ '')'')
            in if policy = DmPairing
               then (case upsertPairingRequest host senderId (resolveSenderName event) of
                       (code, created) \<Rightarrow>
                         if created
                         then (case pairingReply host clients account senderId code of
                                 (clients', effs) \<Rightarrow>
                                   (Returned, clients',
                                    UpsertPairingRequest senderId (resolveSenderName event)
                                    # effs @ [dropLine]))
                         else (Returned, clients,
                               [UpsertPairingRequest senderId (resolveSenderName event), dropLine]))
               else (Returned, clients, [dropLine]))
         else (Admitted, clients, []))"

text \<open>The first lines of \<open>handleOneBotMessage\<close>: what it reads off the event.\<close>

definition eventDetailType :: "OneBotMessageEvent \<Rightarrow> string" where
  "eventDetailType event =
     toLowerCase (trim (case detail_type event of None \<Rightarrow> [] | Some d \<Rightarrow> d))"

definition eventSenderId :: "OneBotMessageEvent \<Rightarrow> string" where
  "eventSenderId event = (case user_id event of None \<Rightarrow> [] | Some u \<Rightarrow> trim u)"

definition eventSelfId :: "ResolvedOneBotAccount \<Rightarrow> OneBotMessageEvent \<Rightarrow> string option" where
  "eventSelfId account event =
     trimmedOr (case eventSelf event of None \<Rightarrow> None | Some s \<Rightarrow> self_user_id s)
       (trimmedOrNull (accountSelfId account))"

definition eventTarget :: "OneBotMessageEvent \<Rightarrow> string option" where
  "eventTarget event =
     buildOneBotTargetFromEvent
       \<lparr>detailType = eventDetailType event, userId = Some (eventSenderId event),
        groupId = trimmedOrNull (group_id event), guildId = trimmedOrNull (guild_id event),
        channelId = trimmedOrNull (channel_id event)\<rparr>"

definition eventGroupKey :: "OneBotMessageEvent \<Rightarrow> string option" where
  "eventGroupKey event =
     (if eventDetailType event = ''channel'' then eventTarget event
      else if eventDetailType event = ''group'' then trimmedOrNull (group_id event)
      else None)"

definition eventConversationId :: "OneBotMessageEvent \<Rightarrow> string" where
  "eventConversationId event =
     (if eventDetailType event = ''channel''
      then inTemplate (trimmedOrNull (guild_id event)) @ '':''
           @ inTemplate (trimmedOrNull (channel_id event))
      else (case trimmedOrNull (group_id event) of Some g \<Rightarrow> g | None \<Rightarrow> eventSenderId event))"

text \<open>
  \<open>handleOneBotMessage\<close>, from the event to the end of the admission checks. What follows
  in the source (command gate, route, mention gate, dispatch) is the host's, and starts
  from the outcome \<open>Admitted\<close>.
\<close>

definition handleOneBotMessage ::
  "Host \<Rightarrow> Registry \<Rightarrow> ResolvedOneBotAccount \<Rightarrow> OneBotMessageEvent
   \<Rightarrow> GateOutcome \<times> Registry \<times> GateEffect list" where
  "handleOneBotMessage host clients account event =
     (let detailType = eventDetailType event;
          senderId = eventSenderId event;
          selfId = eventSelfId account event;
          isGroup = (detailType = ''group'' \<or> detailType = ''channel'')
      in if detailType = [] then (Returned, clients, [])
         else if senderId = [] then (Returned, clients, [])
         else if truthy selfId \<and> senderId = the selfId then (Returned, clients, [])
         else if \<not> truthy (eventTarget event) then (Returned, clients, [])
         else if eventConversationId event = [] then (Returned, clients, [])
         else if fst (resolveMessageText event) = [] then (Returned, clients, [])
         else if isGroup
         then (case groupAdmission host (config account) (eventGroupKey event)
                      (eventConversationId event) senderId of
                 (outcome, effs) \<Rightarrow> (outcome, clients, StatusLastInboundAt # effs))
         else (case dmAdmission host clients account event senderId of
                 (outcome, clients', effs) \<Rightarrow> (outcome, clients', StatusLastInboundAt # effs)))"

section \<open>Example values\<close>

text \<open>Concrete accounts, hosts and events, at which the theorems below are instantiated.\<close>

definition exampleHost :: Host where
  "exampleHost =
     \<lparr>readAllowFromStore = Some [''bob''],
      upsertPairingRequest = (\<lambda>sender name. (''CODE'', True)),
      buildPairingReply = (\<lambda>idLine code. idLine @ '' '' @ code),
      replyNow = 0,
      replySendThrows = None,
      replySettles = Inl ''OneBot action timeout: send_message''\<rparr>"

definition exampleConfig :: OneBotAccountConfig where
  "exampleConfig =
     \<lparr>dmPolicy = Some DmDisabled,
      allowFrom = Some [EntryString ''*'', EntryNumber 123],
      groupAllowFrom = Some [EntryString '' QQ:Alice ''],
      groupPolicy = Some GroupAllowlist,
      groups = Some [(''5'', Some \<lparr>enabled = None, requireMention = None\<rparr>)]\<rparr>"

definition exampleAccount :: "OneBotAccountConfig \<Rightarrow> ResolvedOneBotAccount" where
  "exampleAccount cfg =
     \<lparr>accountId = ''default'', accountPlatform = None, accountSelfId = Some ''10000'',
      accountRequireMention = None, config = cfg\<rparr>"

definition exampleEvent :: "string \<Rightarrow> string \<Rightarrow> string option \<Rightarrow> OneBotMessageEvent" where
  "exampleEvent detail sender gid =
     \<lparr>detail_type = Some detail, user_id = Some sender, group_id = gid, guild_id = None,
      channel_id = None, eventSelf = None,
      message = Some [\<lparr>segmentType = ''text'', segmentData = Some [(''text'', JStr ''hi'')]\<rparr>],
      alt_message = None, qq_nickname = None, user_name = None\<rparr>"

definition exampleClient :: OneBotClient where
  "exampleClient =
     newOneBotClient
       \<lparr>optWsUrl = ''ws://h'', optAccessToken = None,
        optAbortSignal = Some False, optReconnectDelayMs = None\<rparr>"

definition exampleClients :: Registry where
  "exampleClients = setOneBotClient ''default'' exampleClient Map.empty"

text \<open>
  A small stand-in for the platform: it reads a URL as the text before the first \<^verbatim>\<open>?\<close> and
  the query parameters behind it, and its socket constructor refuses what has no scheme.
\<close>

fun joinWith :: "string \<Rightarrow> string list \<Rightarrow> string" where
  "joinWith sep [] = []"
| "joinWith sep [x] = x"
| "joinWith sep (x # y # ys) = x @ sep @ joinWith sep (y # ys)"

definition examplePlatform :: "(string \<times> (string \<times> string) list) Platform" where
  "examplePlatform =
     \<lparr>parseUrl = (\<lambda>s. Some (takeWhile (\<lambda>c. c \<noteq> CHR ''?'') s,
                          map (\<lambda>kv. (takeWhile (\<lambda>c. c \<noteq> CHR ''='') kv,
                                     drop 1 (dropWhile (\<lambda>c. c \<noteq> CHR ''='') kv)))
                            (filter (\<lambda>kv. kv \<noteq> [])
                               (splitOn (\<lambda>c. c = CHR ''&'')
                                  (drop 1 (dropWhile (\<lambda>c. c \<noteq> CHR ''?'') s)))))),
      hasParam = (\<lambda>u k. k \<in> set (map fst (snd u))),
      setParam = (\<lambda>u k v.
                    (fst u,
                     if k \<in> set (map fst (snd u))
                     then map (\<lambda>kv. if fst kv = k then (k, v) else kv) (snd u)
                     else snd u @ [(k, v)])),
      urlString = (\<lambda>u. fst u @ (if snd u = [] then []
                                 else ''?'' @ joinWith ''&'' (map (\<lambda>kv. fst kv @ ''='' @ snd kv) (snd u)))),
      webSocketThrows = (\<lambda>s. if hasUrlScheme s then None else Some (''Invalid URL: '' @ s))\<rparr>"

text \<open>
  A client with two sockets, the current one open, and one action that waits for its
  response.
\<close>

definition exampleSteps :: "Step list" where
  "exampleSteps =
     [Start, Start, SocketOpened 1, SendAction ''send_message'' None None 1700 None]"

definition exampleRunning :: OneBotClient where
  "exampleRunning = fst (run examplePlatform exampleSteps exampleClient)"

section \<open>Auxiliary predicates for the proofs\<close>

definition trimmed :: "string \<Rightarrow> bool" where
  "trimmed s = (s = [] \<or> (\<not> isWhiteSpace (hd s) \<and> \<not> isWhiteSpace (last s)))"

definition goodId :: "string \<Rightarrow> bool" where
  "goodId s = (s \<noteq> [] \<and> trimmed s)"

definition goodPart :: "string \<Rightarrow> bool" where
  "goodPart s = (goodId s \<and> (\<forall>c\<in>set s. \<not> isPathSep c))"

definition targetPrefixes :: "string list" where
  "targetPrefixes = [''user:'', ''private:'', ''dm:'', ''qq:'', ''group:'', ''channel:'', ''guild:'']"

section \<open>Notions used in the statements\<close>

text \<open>
  An event passes the first checks of \<open>handleOneBotMessage\<close> when none of its six early
  returns is taken; it is group-like when its detail type is \<^verbatim>\<open>group\<close> or \<^verbatim>\<open>channel\<close>.
\<close>

definition passesChecks :: "ResolvedOneBotAccount \<Rightarrow> OneBotMessageEvent \<Rightarrow> bool" where
  "passesChecks account event =
     (eventDetailType event \<noteq> [] \<and> eventSenderId event \<noteq> []
      \<and> \<not> (truthy (eventSelfId account event) \<and> eventSenderId event = the (eventSelfId account event))
      \<and> truthy (eventTarget event) \<and> eventConversationId event \<noteq> []
      \<and> fst (resolveMessageText event) \<noteq> [])"

definition groupLike :: "OneBotMessageEvent \<Rightarrow> bool" where
  "groupLike event = (eventDetailType event = ''group'' \<or> eventDetailType event = ''channel'')"



text \<open>
  The reconnect timers that are set, and the invariant of the states of a client, in four
  parts. The timers differ and are older than the next one. The reconnect timer of the
  field is the only reconnect timer that is set, and there is none once the client is
  stopped. The echoes of the pending actions differ and were made with smaller counters,
  and the timeout timers that are set are those of the pending actions. The current socket
  exists, and a client whose signal has fired without a listener, or has no listener yet,
  has made no socket and set no reconnect timer.
\<close>

definition reconnectTimers :: "OneBotClient \<Rightarrow> Timer list" where
  "reconnectTimers c = filter (\<lambda>t. task t = Reconnect) (timers c)"

definition timersOk :: "Timer list \<Rightarrow> nat \<Rightarrow> bool" where
  "timersOk ts n = (distinct (map timerId ts) \<and> (\<forall>t\<in>set ts. timerId t < n))"

definition reconnectOk :: "Timer list \<Rightarrow> nat option \<Rightarrow> bool \<Rightarrow> bool" where
  "reconnectOk ts r st =
     ((\<forall>t\<in>set ts. task t = Reconnect \<longrightarrow> r = Some (timerId t))
      \<and> (\<forall>i. r = Some i \<longrightarrow> (\<exists>t\<in>set ts. timerId t = i \<and> task t = Reconnect))
      \<and> (st \<longrightarrow> r = None))"

definition pendingOk :: "(string \<times> nat) list \<Rightarrow> Timer list \<Rightarrow> nat \<Rightarrow> bool" where
  "pendingOk ps ts counter =
     (distinct (map fst ps)
      \<and> (\<forall>t\<in>set ts. \<forall>e a. task t = ActionTimeout e a \<longrightarrow> (e, timerId t) \<in> set ps)
      \<and> (\<forall>e i. (e, i) \<in> set ps \<longrightarrow> (\<exists>t\<in>set ts. timerId t = i \<and> (\<exists>a. task t = ActionTimeout e a)))
      \<and> (\<forall>e i. (e, i) \<in> set ps \<longrightarrow> (\<exists>n k. k < counter \<and> e = echoToken n k)))"

definition socketsOk ::
  "nat option \<Rightarrow> ReadyState list \<Rightarrow> bool option \<Rightarrow> nat \<Rightarrow> bool \<Rightarrow> nat option \<Rightarrow> bool" where
  "socketsOk w ss sig listeners st r =
     ((\<forall>i. w = Some i \<longrightarrow> i < length ss)
      \<and> (sig = Some True \<longrightarrow> r = None \<and> (st \<or> ss = []))
      \<and> (sig = Some False \<and> listeners = 0 \<longrightarrow> r = None \<and> ss = []))"

definition clientInvariant :: "OneBotClient \<Rightarrow> bool" where
  "clientInvariant c =
     (timersOk (timers c) (nextTimerId c)
      \<and> reconnectOk (timers c) (reconnectTimer c) (stopped c)
      \<and> pendingOk (pending c) (timers c) (actionCounter c)
      \<and> socketsOk (ws c) (sockets c) (abortSignal c) (abortListeners c) (stopped c) (reconnectTimer c))"

text \<open>The states that a client reaches from its construction, step by step.\<close>

inductive reachable :: "'u Platform \<Rightarrow> OneBotClient \<Rightarrow> bool" for lib :: "'u Platform" where
  reachable_new: "reachable lib (newOneBotClient options)"
| reachable_step: "reachable lib c \<Longrightarrow> reachable lib (fst (step lib s c))"

text \<open>
  An echo is spent in a state when no action is pending under it and it was made with a
  counter below the current one, so that no later action gets it.
\<close>

definition spentEcho :: "string \<Rightarrow> OneBotClient \<Rightarrow> bool" where
  "spentEcho e c =
     (e \<notin> fst ` set (pending c) \<and> (\<exists>n k. k < actionCounter c \<and> e = echoToken n k))"

section \<open>Lemmas on strings and target addresses\<close>

lemma trimEnd_Nil_iff: "trimEnd s = [] \<longleftrightarrow> (\<forall>c\<in>set s. isWhiteSpace c)"
  by (auto simp: trimEnd_def dropWhile_eq_Nil_conv)

lemma last_trimEnd: "trimEnd s \<noteq> [] \<Longrightarrow> \<not> isWhiteSpace (last (trimEnd s))"
  unfolding trimEnd_def
  by (metis (full_types) dropWhile_eq_Nil_conv hd_dropWhile last_rev rev_is_Nil_conv)

lemma hd_trimStart: "trimStart s \<noteq> [] \<Longrightarrow> \<not> isWhiteSpace (hd (trimStart s))"
  unfolding trimStart_def by (simp add: hd_dropWhile)

lemma trimEnd_append_keep:
  "r \<noteq> [] \<Longrightarrow> \<not> isWhiteSpace (last r) \<Longrightarrow> trimEnd (p @ r) = p @ r"
  unfolding trimEnd_def
  by (cases r rule: rev_cases) simp_all

lemma trimEnd_keep: "r \<noteq> [] \<Longrightarrow> \<not> isWhiteSpace (last r) \<Longrightarrow> trimEnd r = r"
  using trimEnd_append_keep [of r "[]"] by simp

lemma trimStart_keep: "r \<noteq> [] \<Longrightarrow> \<not> isWhiteSpace (hd r) \<Longrightarrow> trimStart r = r"
  unfolding trimStart_def by (cases r) simp_all

lemma hd_trimEnd: "\<not> isWhiteSpace (hd s) \<Longrightarrow> trimEnd s \<noteq> [] \<Longrightarrow> hd (trimEnd s) = hd s"
  unfolding trimEnd_def
  by (induction s rule: rev_induct) (auto simp: hd_append split: if_splits)

lemma trimmed_trim: "trimmed (trim s)"
proof (cases "trim s = []")
  case True
  then show ?thesis by (simp add: trimmed_def)
next
  case False
  then have ne: "trimStart s \<noteq> []" by (auto simp: trim_def trimEnd_def)
  have h: "\<not> isWhiteSpace (hd (trimStart s))" using ne by (rule hd_trimStart)
  have "hd (trim s) = hd (trimStart s)"
    using False h unfolding trim_def by (simp add: hd_trimEnd)
  moreover have "\<not> isWhiteSpace (last (trim s))"
    using False unfolding trim_def by (rule last_trimEnd)
  ultimately show ?thesis using h by (simp add: trimmed_def)
qed

lemma trim_trimmed: "trimmed s \<Longrightarrow> trim s = s"
proof (cases "s = []")
  case True
  then show ?thesis by (simp add: trim_def trimStart_def trimEnd_def)
next
  case False
  assume "trimmed s"
  with False have h: "\<not> isWhiteSpace (hd s)" and l: "\<not> isWhiteSpace (last s)"
    by (simp_all add: trimmed_def)
  have "trimStart s = s" using False h by (rule trimStart_keep)
  moreover have "trimEnd s = s" using False l by (rule trimEnd_keep)
  ultimately show ?thesis by (simp add: trim_def)
qed

lemma trim_idem: "trim (trim s) = trim s"
  by (rule trim_trimmed) (rule trimmed_trim)

lemma set_trim: "set (trim s) \<subseteq> set s"
  unfolding trim_def trimEnd_def trimStart_def
  by (metis set_dropWhileD set_rev subsetI)

lemma trim_prefixed:
  assumes "p \<noteq> []" "\<not> isWhiteSpace (hd p)" "\<not> isWhiteSpace (last p)" "trimmed r"
  shows "trim (p @ r) = p @ r"
proof (rule trim_trimmed)
  show "trimmed (p @ r)"
    using assms by (cases "r = []") (auto simp: trimmed_def hd_append)
qed

lemma splitOn_ne: "splitOn sep s \<noteq> []"
  by (induction s) (auto split: list.splits)

lemma splitOn_no_sep_all: "\<forall>w\<in>set (splitOn sep s). \<forall>c\<in>set w. \<not> sep c"
proof (induction s)
  case Nil
  then show ?case by simp
next
  case (Cons a s)
  show ?case
  proof (cases "sep a")
    case True
    with Cons show ?thesis by simp
  next
    case False
    obtain w ws where ws: "splitOn sep s = w # ws"
      using splitOn_ne [of sep s] by (cases "splitOn sep s") auto
    with Cons False show ?thesis by auto
  qed
qed

lemma splitOn_no_sep: "w \<in> set (splitOn sep s) \<Longrightarrow> c \<in> set w \<Longrightarrow> \<not> sep c"
  using splitOn_no_sep_all by blast

lemma splitOn_plain: "\<forall>c\<in>set s. \<not> sep c \<Longrightarrow> splitOn sep s = [s]"
  by (induction s) auto

lemma splitOn_first:
  "\<forall>c\<in>set g. \<not> sep c \<Longrightarrow> sep x \<Longrightarrow> splitOn sep (g @ x # r) = g # splitOn sep r"
  by (induction g) auto

lemma channelParts_good:
  assumes "x \<in> set (channelParts rest)"
  shows "goodPart x"
proof -
  from assms obtain w where w: "w \<in> set (splitOn isPathSep rest)" and x: "x = trim w" and ne: "x \<noteq> []"
    by (auto simp: channelParts_def)
  have "\<forall>c\<in>set x. \<not> isPathSep c"
    using splitOn_no_sep [OF w] set_trim [of w] x by blast
  with ne x show ?thesis
    by (simp add: goodPart_def goodId_def trimmed_trim)
qed

lemma channelParts_pair:
  assumes "goodPart g" "goodPart c"
  shows "channelParts (g @ '':'' @ c) = [g, c]"
proof -
  have "splitOn isPathSep (g @ CHR '':'' # c) = [g, c]"
    using assms by (simp add: splitOn_first splitOn_plain goodPart_def isPathSep_def)
  moreover have "trim g = g" "trim c = c"
    using assms by (simp_all add: goodPart_def goodId_def trim_trimmed)
  ultimately show ?thesis
    using assms by (simp add: channelParts_def goodPart_def goodId_def)
qed

lemma stripPrefix_Some: "stripPrefix raw p = Some rest \<Longrightarrow> trimmed rest"
  by (auto simp: stripPrefix_def Let_def trimmed_trim split: if_splits)

lemma parseUserPrefixes_Some:
  "parseUserPrefixes raw ps = Some t \<Longrightarrow> \<exists>u. t = User u \<and> goodId u"
  by (induction ps) (auto simp: goodId_def dest: stripPrefix_Some split: option.splits if_splits)

lemma parseChannelPrefixes_Some:
  "parseChannelPrefixes raw ps = Some t \<Longrightarrow> \<exists>g c. t = Channel g c \<and> goodPart g \<and> goodPart c"
proof (induction ps)
  case Nil
  then show ?case by simp
next
  case (Cons p ps)
  show ?case
  proof (cases "stripPrefix raw p")
    case None
    with Cons show ?thesis by simp
  next
    case (Some rest)
    show ?thesis
    proof (cases "rest = []")
      case True
      with Some Cons show ?thesis by simp
    next
      case False
      with Some Cons.prems obtain g c zs where
        parts: "channelParts rest = g # c # zs" and t: "t = Channel g c"
        by (auto split: list.splits)
      have "goodPart g" "goodPart c"
        using parts channelParts_good [of _ rest] by simp_all
      with t show ?thesis by simp
    qed
  qed
qed

lemma parseOneBotTarget_Some:
  assumes "parseOneBotTarget a = Some t"
  shows "(\<exists>u. t = User u \<and> goodId u) \<or> (\<exists>g. t = Group g \<and> goodId g)
       \<or> (\<exists>g c. t = Channel g c \<and> goodPart g \<and> goodPart c)"
proof (cases "parseUserPrefixes (normalizeRawTarget a) [''user:'', ''private:'', ''dm:'', ''qq:'']")
  case (Some t')
  with assms have "t' = t"
    by (simp add: parseOneBotTarget_def Let_def split: if_splits)
  with Some show ?thesis using parseUserPrefixes_Some by blast
next
  case None
  show ?thesis
  proof (cases "\<exists>r. stripPrefix (normalizeRawTarget a) ''group:'' = Some r \<and> r \<noteq> []")
    case True
    then obtain r where r: "stripPrefix (normalizeRawTarget a) ''group:'' = Some r" "r \<noteq> []"
      by blast
    with assms None have "t = Group r"
      by (simp add: parseOneBotTarget_def Let_def split: if_splits)
    moreover have "goodId r" using r stripPrefix_Some by (simp add: goodId_def)
    ultimately show ?thesis by simp
  next
    case False
    then have "stripPrefix (normalizeRawTarget a) ''group:'' = None
               \<or> stripPrefix (normalizeRawTarget a) ''group:'' = Some []"
      by (cases "stripPrefix (normalizeRawTarget a) ''group:''") simp_all
    with assms None have "parseChannelPrefixes (normalizeRawTarget a) [''channel:'', ''guild:''] = Some t"
      unfolding parseOneBotTarget_def Let_def
      by (elim disjE) (simp_all split: if_splits)
    then show ?thesis using parseChannelPrefixes_Some by blast
  qed
qed

lemma trimEnd_Cons:
  "trimEnd (c # r) = (if trimEnd r = [] then (if isWhiteSpace c then [] else [c]) else c # trimEnd r)"
  by (auto simp: trimEnd_def dropWhile_append)

lemma trimStart_trimEnd: "trimStart (trimEnd r) = trimEnd (trimStart r)"
proof (induction r)
  case Nil
  then show ?case by (simp add: trimStart_def trimEnd_def)
next
  case (Cons c r)
  show ?case
  proof (cases "trimEnd r = []")
    case True
    then have "\<forall>x\<in>set r. isWhiteSpace x" by (simp add: trimEnd_Nil_iff)
    then have ts: "trimStart r = []" by (simp add: trimStart_def)
    show ?thesis
    proof (cases "isWhiteSpace c")
      case ws: True
      then have "trimStart (c # r) = []" using ts by (simp add: trimStart_def)
      with True ws show ?thesis
        by (simp add: trimEnd_Cons) (simp add: trimStart_def trimEnd_def)
    next
      case nws: False
      then have "trimStart (c # r) = c # r" by (simp add: trimStart_def)
      with True nws show ?thesis
        by (simp add: trimEnd_Cons) (simp add: trimStart_def)
    qed
  next
    case False
    with Cons show ?thesis
      by (simp add: trimEnd_Cons) (simp add: trimStart_def trimEnd_Cons)
  qed
qed

lemma trimEnd_idem: "trimEnd (trimEnd r) = trimEnd r"
  by (simp add: trimEnd_def)

lemma trim_trimEnd: "trim (trimEnd r) = trim r"
  by (simp add: trim_def trimStart_trimEnd trimEnd_idem)

lemma trimEnd_append:
  "x \<noteq> [] \<Longrightarrow> \<not> isWhiteSpace (last x) \<Longrightarrow> trimEnd (x @ r) = x @ trimEnd r"
  by (cases x rule: rev_cases) (auto simp: trimEnd_def dropWhile_append)

lemma trim_append:
  assumes "x \<noteq> []" "\<not> isWhiteSpace (hd x)" "\<not> isWhiteSpace (last x)"
  shows "trim (x @ r) = x @ trimEnd r"
proof -
  have "trimStart (x @ r) = x @ r"
    using assms by (intro trimStart_keep) (simp_all add: hd_append)
  then show ?thesis using assms by (simp add: trim_def trimEnd_append)
qed

lemma isWhiteSpace_lowerChar: "isWhiteSpace c \<Longrightarrow> lowerChar c = c"
  by (auto simp: isWhiteSpace_def lowerChar_def)

lemma lower_prefix_shape:
  assumes "toLowerCase P = p" "p \<in> set targetPrefixes \<or> p = ''onebot:''"
  shows "P \<noteq> [] \<and> \<not> isWhiteSpace (hd P) \<and> \<not> isWhiteSpace (last P) \<and> length P = length p"
proof -
  have len: "length P = length p" using assms(1) by (auto simp: toLowerCase_def)
  have ne: "P \<noteq> []" using assms len by (auto simp: targetPrefixes_def)
  have h: "lowerChar (hd P) = hd p" and l: "lowerChar (last P) = last p"
    using assms(1) ne by (auto simp: toLowerCase_def hd_map last_map)
  have "\<not> isWhiteSpace (hd p)" "\<not> isWhiteSpace (last p)"
    using assms(2) by (auto simp: targetPrefixes_def isWhiteSpace_def)
  with h l have "\<not> isWhiteSpace (hd P)" "\<not> isWhiteSpace (last P)"
    using isWhiteSpace_lowerChar by metis+
  with ne len show ?thesis by simp
qed

lemma toLowerCase_append: "toLowerCase (a @ b) = toLowerCase a @ toLowerCase b"
  by (simp add: toLowerCase_def)

lemma stripPrefix_variant:
  assumes "toLowerCase P = p" "p \<in> set targetPrefixes" "q \<in> set targetPrefixes"
  shows "stripPrefix (P @ r) q = (if q = p then Some (trim r) else None)"
proof -
  have len: "length P = length p" using assms(1) by (auto simp: toLowerCase_def)
  have low: "toLowerCase (P @ r) = p @ toLowerCase r"
    using assms(1) by (simp add: toLowerCase_append)
  have "p = ''user:'' \<or> p = ''private:'' \<or> p = ''dm:'' \<or> p = ''qq:'' \<or> p = ''group:''
        \<or> p = ''channel:'' \<or> p = ''guild:''"
    using assms(2) by (simp add: targetPrefixes_def)
  moreover have "q = ''user:'' \<or> q = ''private:'' \<or> q = ''dm:'' \<or> q = ''qq:'' \<or> q = ''group:''
        \<or> q = ''channel:'' \<or> q = ''guild:''"
    using assms(3) by (simp add: targetPrefixes_def)
  ultimately have "startsWith (p @ toLowerCase r) q \<longleftrightarrow> q = p"
    by (elim disjE) (simp_all add: startsWith_def)
  with low len show ?thesis by (simp add: stripPrefix_def Let_def)
qed

lemma not_scheme_variant:
  assumes "toLowerCase P = p" "p \<in> set targetPrefixes"
  shows "\<not> matchesPREFIX_RE (P @ r)"
proof -
  have "toLowerCase (take 7 (P @ r)) = take 7 (toLowerCase (P @ r))"
    by (simp add: toLowerCase_def take_map)
  then have "toLowerCase (take 7 (P @ r)) = take 7 (p @ toLowerCase r)"
    using assms(1) by (simp only: toLowerCase_append)
  moreover have "take 7 (p @ toLowerCase r) \<noteq> ''onebot:''"
    using assms(2) by (auto simp: targetPrefixes_def)
  ultimately show ?thesis by (simp add: matchesPREFIX_RE_def)
qed

lemma normalizeRawTarget_variant:
  assumes "sc = [] \<or> toLowerCase sc = ''onebot:''" "toLowerCase P = p" "p \<in> set targetPrefixes"
  shows "normalizeRawTarget (sc @ P @ rest) = P @ trimEnd rest"
proof -
  have P: "P \<noteq> []" "\<not> isWhiteSpace (hd P)" "\<not> isWhiteSpace (last P)"
    using lower_prefix_shape [OF assms(2)] assms(3) by simp_all
  from assms(1) show ?thesis
  proof
    assume "sc = []"
    then have "trim (sc @ P @ rest) = P @ trimEnd rest"
      using P by (simp add: trim_append)
    then show ?thesis
      using not_scheme_variant [OF assms(2,3)] by (simp add: normalizeRawTarget_def Let_def)
  next
    assume sc: "toLowerCase sc = ''onebot:''"
    then have S: "sc \<noteq> []" "\<not> isWhiteSpace (hd sc)" "length sc = 7"
      using lower_prefix_shape [of sc "''onebot:''"] by simp_all
    have "trim ((sc @ P) @ rest) = (sc @ P) @ trimEnd rest"
      using P S by (intro trim_append) (simp_all add: hd_append)
    then have t: "trim (sc @ P @ rest) = sc @ P @ trimEnd rest" by simp
    have "matchesPREFIX_RE (sc @ P @ trimEnd rest)"
      using sc S by (simp add: matchesPREFIX_RE_def)
    with t S show ?thesis by (simp add: normalizeRawTarget_def Let_def)
  qed
qed

lemma parse_prefixed:
  assumes "sc = [] \<or> toLowerCase sc = ''onebot:''" "toLowerCase P = p" "p \<in> set targetPrefixes"
  shows "parseOneBotTarget (sc @ P @ rest) =
           (if trim rest = [] then None
            else if p \<in> set [''user:'', ''private:'', ''dm:'', ''qq:''] then Some (User (trim rest))
            else if p = ''group:'' then Some (Group (trim rest))
            else (case channelParts (trim rest) of
                    g # c # _ \<Rightarrow> Some (Channel g c)
                  | _ \<Rightarrow> None))"
proof -
  define raw where "raw = P @ trimEnd rest"
  have raw: "normalizeRawTarget (sc @ P @ rest) = raw"
    unfolding raw_def using assms by (rule normalizeRawTarget_variant)
  have ne: "raw \<noteq> []"
    using lower_prefix_shape [OF assms(2)] assms(3) by (simp add: raw_def)
  have sp: "stripPrefix raw q = (if q = p then Some (trim rest) else None)"
    if "q \<in> set targetPrefixes" for q
    unfolding raw_def using stripPrefix_variant [OF assms(2,3) that] by (simp add: trim_trimEnd)
  have s1: "stripPrefix raw ''user:'' = (if ''user:'' = p then Some (trim rest) else None)"
    by (rule sp) (simp add: targetPrefixes_def)
  have s2: "stripPrefix raw ''private:'' = (if ''private:'' = p then Some (trim rest) else None)"
    by (rule sp) (simp add: targetPrefixes_def)
  have s3: "stripPrefix raw ''dm:'' = (if ''dm:'' = p then Some (trim rest) else None)"
    by (rule sp) (simp add: targetPrefixes_def)
  have s4: "stripPrefix raw ''qq:'' = (if ''qq:'' = p then Some (trim rest) else None)"
    by (rule sp) (simp add: targetPrefixes_def)
  have s5: "stripPrefix raw ''group:'' = (if ''group:'' = p then Some (trim rest) else None)"
    by (rule sp) (simp add: targetPrefixes_def)
  have s6: "stripPrefix raw ''channel:'' = (if ''channel:'' = p then Some (trim rest) else None)"
    by (rule sp) (simp add: targetPrefixes_def)
  have s7: "stripPrefix raw ''guild:'' = (if ''guild:'' = p then Some (trim rest) else None)"
    by (rule sp) (simp add: targetPrefixes_def)
  have "p = ''user:'' \<or> p = ''private:'' \<or> p = ''dm:'' \<or> p = ''qq:'' \<or> p = ''group:''
        \<or> p = ''channel:'' \<or> p = ''guild:''"
    using assms(3) by (simp add: targetPrefixes_def)
  then show ?thesis
    unfolding parseOneBotTarget_def raw Let_def
    by (elim disjE) (simp_all add: ne s1 s2 s3 s4 s5 s6 s7 split: list.splits)
qed

lemma parse_user: "goodId u \<Longrightarrow> parseOneBotTarget (''user:'' @ u) = Some (User u)"
  using parse_prefixed [of "[]" "''user:''" "''user:''" u]
  by (simp add: targetPrefixes_def toLowerCase_def lowerChar_def goodId_def trim_trimmed)

lemma parse_group: "goodId g \<Longrightarrow> parseOneBotTarget (''group:'' @ g) = Some (Group g)"
  using parse_prefixed [of "[]" "''group:''" "''group:''" g]
  by (simp add: targetPrefixes_def toLowerCase_def lowerChar_def goodId_def trim_trimmed)

lemma goodPart_pair: 
  assumes "goodPart g" "goodPart c"
  shows "goodId (g @ '':'' @ c)"
  using assms by (cases "c = []") (auto simp: goodPart_def goodId_def trimmed_def hd_append)

lemma parse_channel:
  assumes "goodPart g" "goodPart c"
  shows "parseOneBotTarget (''channel:'' @ g @ '':'' @ c) = Some (Channel g c)"
proof -
  have "trim (g @ '':'' @ c) = g @ '':'' @ c"
    using goodPart_pair [OF assms] by (simp add: goodId_def trim_trimmed)
  then show ?thesis
    using parse_prefixed [of "[]" "''channel:''" "''channel:''" "g @ '':'' @ c"]
      channelParts_pair [OF assms]
    by (simp add: targetPrefixes_def toLowerCase_def lowerChar_def)
qed

lemma parse_trim: "parseOneBotTarget (trim a) = parseOneBotTarget a"
  by (simp add: parseOneBotTarget_def normalizeRawTarget_def trim_idem)

section \<open>Lemmas on the gate and the outbound adapter\<close>

lemma trim_Nil_iff: "trim s = [] \<longleftrightarrow> (\<forall>c\<in>set s. isWhiteSpace c)"
proof
  assume "trim s = []"
  then have "\<forall>c\<in>set (trimStart s). isWhiteSpace c"
    by (simp add: trim_def trimEnd_Nil_iff)
  then have "trimStart s = []"
    using hd_trimStart [of s] by (cases "trimStart s") auto
  then show "\<forall>c\<in>set s. isWhiteSpace c"
    by (simp add: trimStart_def)
next
  assume "\<forall>c\<in>set s. isWhiteSpace c"
  then have "trimStart s = []" by (simp add: trimStart_def)
  then show "trim s = []"
    by (simp add: trim_def trimEnd_def)
qed

lemma handle_direct:
  assumes "passesChecks account event" "\<not> groupLike event"
  shows "handleOneBotMessage host clients account event =
           (case dmAdmission host clients account event (eventSenderId event) of
              (outcome, clients', effs) \<Rightarrow> (outcome, clients', StatusLastInboundAt # effs))"
  using assms by (auto simp: handleOneBotMessage_def passesChecks_def groupLike_def Let_def)










section \<open>Lemmas on the client\<close>

lemma rejectEntries_eq:
  "rejectEntries error es c =
     (c\<lparr>timers := filter (\<lambda>t. timerId t \<notin> snd ` set es) (timers c)\<rparr>,
      map (\<lambda>(e, t). Reject e error) es)"
proof (induction es arbitrary: c)
  case Nil
  then show ?case by simp
next
  case (Cons x es)
  obtain e t where x: "x = (e, t)" by (cases x)
  have "filter (\<lambda>u. timerId u \<notin> snd ` set es) (filter (\<lambda>u. timerId u \<noteq> t) (timers c))
        = filter (\<lambda>u. timerId u \<notin> snd ` set ((e, t) # es)) (timers c)"
    by (induction "timers c") (auto intro: filter_cong)
  then show ?case
    using Cons [of "clearTimeout t c"] by (simp add: x clearTimeout_def)
qed

lemma rejectAllPending_eq:
  "rejectAllPending error c =
     (c\<lparr>timers := filter (\<lambda>t. timerId t \<notin> snd ` set (pending c)) (timers c), pending := []\<rparr>,
      map (\<lambda>(e, t). Reject e error) (pending c))"
  by (simp add: rejectAllPending_def rejectEntries_eq)

lemma timer_by_id:
  assumes "distinct (map timerId ts)" "t \<in> set ts" "u \<in> set ts" "timerId t = timerId u"
  shows "t = u"
  using assms by (meson distinct_map inj_onD)

lemma pending_timers_are_action_timers:
  assumes "timersOk ts n" "pendingOk ps ts k"
  shows "filter (\<lambda>t. timerId t \<notin> snd ` set ps) ts = filter (\<lambda>t. task t = Reconnect) ts"
proof (rule filter_cong [OF refl])
  fix t assume t: "t \<in> set ts"
  show "(timerId t \<notin> snd ` set ps) = (task t = Reconnect)"
  proof
    assume n: "timerId t \<notin> snd ` set ps"
    show "task t = Reconnect"
    proof (cases "task t")
      case (ActionTimeout e a)
      with assms t have "(e, timerId t) \<in> set ps"
        by (simp add: pendingOk_def)
      with n show ?thesis by force
    qed simp
  next
    assume r: "task t = Reconnect"
    show "timerId t \<notin> snd ` set ps"
    proof
      assume "timerId t \<in> snd ` set ps"
      then obtain e where "(e, timerId t) \<in> set ps" by force
      with assms(2) obtain u where u: "u \<in> set ts" "timerId u = timerId t"
        "\<exists>a. task u = ActionTimeout e a"
        unfolding pendingOk_def by blast
      from assms have "distinct (map timerId ts)" by (simp add: timersOk_def)
      from timer_by_id [OF this u(1) t u(2)] u(3) r show False by auto
    qed
  qed
qed

lemma rejectAllPending_state:
  assumes "clientInvariant c"
  shows "fst (rejectAllPending error c) = c\<lparr>timers := reconnectTimers c, pending := []\<rparr>"
  using pending_timers_are_action_timers [of "timers c" "nextTimerId c" "pending c" "actionCounter c"] assms
  by (simp add: rejectAllPending_eq clientInvariant_def reconnectTimers_def)

lemma timersOk_filter: "timersOk ts n \<Longrightarrow> timersOk (filter P ts) n"
  by (auto simp: timersOk_def distinct_map_filter)

lemma timersOk_add: "timersOk ts n \<Longrightarrow> timersOk (ts @ [\<lparr>timerId = n, task = k, delayMs = d\<rparr>]) (Suc n)"
  by (fastforce simp: timersOk_def)

lemma reconnectOk_only_reconnect:
  "reconnectOk ts r st \<Longrightarrow> reconnectOk (filter (\<lambda>t. task t = Reconnect) ts) r st"
  unfolding reconnectOk_def by auto

lemma pendingOk_none: "pendingOk [] (filter (\<lambda>t. task t = Reconnect) ts) k"
  by (simp add: pendingOk_def)

lemma invariant_no_pending:
  assumes "clientInvariant c"
  shows "clientInvariant (c\<lparr>timers := reconnectTimers c, pending := []\<rparr>)"
  using assms
  by (simp add: clientInvariant_def reconnectTimers_def timersOk_filter
       reconnectOk_only_reconnect pendingOk_none)

lemma invariant_rejectAllPending:
  "clientInvariant c \<Longrightarrow> clientInvariant (fst (rejectAllPending error c))"
  by (simp add: rejectAllPending_state invariant_no_pending)

lemma invariant_new: "clientInvariant (newOneBotClient options)"
  by (simp add: clientInvariant_def newOneBotClient_def timersOk_def reconnectOk_def
       pendingOk_def socketsOk_def)

lemma socketsOk_connect:
  assumes "socketsOk w ss sig l st r" "sig \<noteq> Some True"
  shows "socketsOk (Some (length ss)) (ss @ [CONNECTING]) sig (if sig = None then l else Suc l) st r"
  using assms by (auto simp: socketsOk_def)

lemma invariant_connect:
  assumes "clientInvariant c" "abortSignal c \<noteq> Some True \<or> stopped c"
  shows "clientInvariant (fst (connect lib c))"
proof (cases "stopped c \<or> webSocketThrows lib (withAccessToken lib (wsUrl c) (accessToken c)) \<noteq> None")
  case True
  then have "fst (connect lib c) = c"
    by (auto simp: connect_def Let_def)
  with assms show ?thesis by simp
next
  case False
  with assms(2) have a: "abortSignal c \<noteq> Some True" by simp
  from False have
    "fst (connect lib c) =
       c\<lparr>ws := Some (length (sockets c)), sockets := sockets c @ [CONNECTING],
         abortListeners := (if abortSignal c = None then abortListeners c else Suc (abortListeners c))\<rparr>"
    by (auto simp: connect_def Let_def)
  with assms(1) a show ?thesis
    by (auto simp: clientInvariant_def socketsOk_def)
qed

lemma invariant_start: "clientInvariant c \<Longrightarrow> clientInvariant (fst (start lib c))"
proof (cases "abortSignal c = Some True")
  case True
  assume "clientInvariant c"
  with True show ?thesis
    by (auto simp: start_def clientInvariant_def reconnectOk_def socketsOk_def)
next
  case False
  assume "clientInvariant c"
  with False show ?thesis by (simp add: start_def invariant_connect)
qed

lemma reconnectOk_clear:
  assumes "reconnectOk ts (Some r) st"
  shows "reconnectOk (filter (\<lambda>t. timerId t \<noteq> r) ts) None st'"
  using assms unfolding reconnectOk_def by auto

lemma reconnect_timer_is_no_action:
  assumes "timersOk ts n" "reconnectOk ts (Some r) st" "t \<in> set ts" "task t = ActionTimeout e a"
  shows "timerId t \<noteq> r"
proof
  assume "timerId t = r"
  from assms(2) obtain u where u: "u \<in> set ts" "timerId u = r" "task u = Reconnect"
    unfolding reconnectOk_def by blast
  from assms(1) have "distinct (map timerId ts)" by (simp add: timersOk_def)
  from timer_by_id [OF this assms(3) u(1)] \<open>timerId t = r\<close> u assms(4) show False by auto
qed

lemma pendingOk_clear_reconnect:
  assumes "timersOk ts n" "reconnectOk ts (Some r) st" "pendingOk ps ts k"
  shows "pendingOk ps (filter (\<lambda>t. timerId t \<noteq> r) ts) k"
proof -
  have keep: "timerId t \<noteq> r" if "t \<in> set ts" "task t = ActionTimeout e a" for t e a
    using reconnect_timer_is_no_action [OF assms(1,2) that] .
  from assms(3) show ?thesis
    unfolding pendingOk_def using keep by (auto; blast)
qed

lemma clearReconnectTimer_eq:
  "clearReconnectTimer c =
     (case reconnectTimer c of None \<Rightarrow> c
      | Some r \<Rightarrow> c\<lparr>timers := filter (\<lambda>t. timerId t \<noteq> r) (timers c), reconnectTimer := None\<rparr>)"
  by (simp add: clearReconnectTimer_def clearTimeout_def split: option.splits)

lemma pendingOk_mono: "pendingOk ps ts k \<Longrightarrow> k \<le> k' \<Longrightarrow> pendingOk ps ts k'"
  unfolding pendingOk_def by (meson less_le_trans)

lemma pendingOk_add_reconnect:
  "pendingOk ps ts k \<Longrightarrow> pendingOk ps (ts @ [\<lparr>timerId = n, task = Reconnect, delayMs = d\<rparr>]) k"
  unfolding pendingOk_def by (auto; blast)

lemma reconnectOk_add:
  assumes "reconnectOk ts None False" "timersOk ts n"
  shows "reconnectOk (ts @ [\<lparr>timerId = n, task = Reconnect, delayMs = d\<rparr>]) (Some n) False"
  using assms unfolding reconnectOk_def timersOk_def by auto

lemma scheduleReconnect_eq:
  "scheduleReconnect c =
     (if reconnectTimer c \<noteq> None \<or> stopped c then c
      else c\<lparr>timers := timers c @ [\<lparr>timerId = nextTimerId c, task = Reconnect, delayMs = reconnectDelayMs c\<rparr>],
             nextTimerId := Suc (nextTimerId c), reconnectTimer := Some (nextTimerId c)\<rparr>)"
  by (simp add: scheduleReconnect_def setTimeout_def)

lemma invariant_scheduleReconnect:
  assumes "clientInvariant c" "sockets c \<noteq> []"
  shows "clientInvariant (scheduleReconnect c)"
proof (cases "reconnectTimer c \<noteq> None \<or> stopped c")
  case True
  with assms show ?thesis by (simp add: scheduleReconnect_eq)
next
  case False
  then have r: "reconnectTimer c = None" "\<not> stopped c" by simp_all
  from assms(1) have t: "timersOk (timers c) (nextTimerId c)"
    and ro: "reconnectOk (timers c) None False"
    and p: "pendingOk (pending c) (timers c) (actionCounter c)"
    and s: "socketsOk (ws c) (sockets c) (abortSignal c) (abortListeners c) False None"
    using r by (simp_all add: clientInvariant_def)
  from s assms(2) have "socketsOk (ws c) (sockets c) (abortSignal c) (abortListeners c) False (Some (nextTimerId c))"
    by (auto simp: socketsOk_def)
  with r timersOk_add [OF t] reconnectOk_add [OF ro t] pendingOk_add_reconnect [OF p]
  show ?thesis
    by (simp add: scheduleReconnect_eq clientInvariant_def)
qed

lemma closeSocket_fields:
  "timers (fst (closeSocket c)) = timers c" "nextTimerId (fst (closeSocket c)) = nextTimerId c"
  "reconnectTimer (fst (closeSocket c)) = reconnectTimer c" "stopped (fst (closeSocket c)) = stopped c"
  "pending (fst (closeSocket c)) = pending c" "actionCounter (fst (closeSocket c)) = actionCounter c"
  "abortSignal (fst (closeSocket c)) = abortSignal c" "abortListeners (fst (closeSocket c)) = abortListeners c"
  "ws (fst (closeSocket c)) = None" "length (sockets (fst (closeSocket c))) = length (sockets c)"
  by (simp_all add: closeSocket_def split: option.splits)

text \<open>\<open>stop\<close> establishes the invariant also from a state whose signal has just fired.\<close>

lemma invariant_stop_general:
  assumes t: "timersOk (timers c) (nextTimerId c)"
    and r: "reconnectOk (timers c) (reconnectTimer c) (stopped c)"
    and p: "pendingOk (pending c) (timers c) (actionCounter c)"
    and s: "abortSignal c = Some False \<and> abortListeners c = 0 \<longrightarrow> sockets c = []"
  shows "clientInvariant (fst (stop c))" "stopped (fst (stop c))"
    "reconnectTimer (fst (stop c)) = None" "reconnectTimers (fst (stop c)) = []"
    "abortSignal (fst (stop c)) = abortSignal c" "abortListeners (fst (stop c)) = abortListeners c"
proof -
  define c1 where "c1 = clearReconnectTimer (c\<lparr>stopped := True\<rparr>)"
  define c2 where "c2 = fst (closeSocket c1)"
  have c1: "timersOk (timers c1) (nextTimerId c1)" "reconnectOk (timers c1) None True"
    "pendingOk (pending c1) (timers c1) (actionCounter c1)" "reconnectTimer c1 = None"
    "stopped c1" "abortSignal c1 = abortSignal c" "abortListeners c1 = abortListeners c"
    "sockets c1 = sockets c"
  proof -
    show "reconnectTimer c1 = None" "stopped c1" "abortSignal c1 = abortSignal c"
      "abortListeners c1 = abortListeners c" "sockets c1 = sockets c"
      by (simp_all add: c1_def clearReconnectTimer_eq split: option.splits)
    show "timersOk (timers c1) (nextTimerId c1)"
      using t by (simp add: c1_def clearReconnectTimer_eq timersOk_filter split: option.splits)
    show "reconnectOk (timers c1) None True"
    proof (cases "reconnectTimer c")
      case None
      with r show ?thesis by (simp add: c1_def clearReconnectTimer_eq reconnectOk_def)
    next
      case (Some i)
      with r show ?thesis
        using reconnectOk_clear [of "timers c" i "stopped c" True]
        by (simp add: c1_def clearReconnectTimer_eq)
    qed
    show "pendingOk (pending c1) (timers c1) (actionCounter c1)"
    proof (cases "reconnectTimer c")
      case None
      with p show ?thesis by (simp add: c1_def clearReconnectTimer_eq)
    next
      case (Some i)
      with t r p show ?thesis
        using pendingOk_clear_reconnect [of "timers c" "nextTimerId c" i "stopped c" "pending c" "actionCounter c"]
        by (simp add: c1_def clearReconnectTimer_eq)
    qed
  qed
  have e: "sockets (fst (closeSocket c1)) = []" if "sockets c1 = []"
    using closeSocket_fields(10) [of c1] that by simp
  have inv2: "clientInvariant c2"
    unfolding clientInvariant_def c2_def closeSocket_fields
    using c1 s e by (auto simp: socketsOk_def)
  have st: "fst (stop c) = fst (rejectAllPending ''OneBot connection stopped'' c2)"
    by (simp add: stop_def Let_def c2_def c1_def split: prod.splits)
  have c2: "stopped c2" "reconnectTimer c2 = None" "abortSignal c2 = abortSignal c"
    "abortListeners c2 = abortListeners c" "reconnectOk (timers c2) None True"
    using c1 by (simp_all add: c2_def closeSocket_fields)
  show "clientInvariant (fst (stop c))"
    unfolding st using inv2 by (rule invariant_rejectAllPending)
  show "stopped (fst (stop c))" "reconnectTimer (fst (stop c)) = None"
    "abortSignal (fst (stop c)) = abortSignal c" "abortListeners (fst (stop c)) = abortListeners c"
    unfolding st using c2 by (simp_all add: rejectAllPending_eq)
  show "reconnectTimers (fst (stop c)) = []"
    unfolding st using c2(5)
    by (auto simp: rejectAllPending_eq reconnectTimers_def reconnectOk_def filter_empty_conv)
qed

lemma invariant_stop:
  assumes "clientInvariant c"
  shows "clientInvariant (fst (stop c))"
  using assms by (intro invariant_stop_general) (auto simp: clientInvariant_def socketsOk_def)

lemma digitsOf_digits: "c \<in> set (digitsOf n) \<Longrightarrow> 48 \<le> (of_char c :: nat) \<and> (of_char c :: nat) \<le> 57"
proof (induction n arbitrary: c rule: digitsOf.induct)
  case (1 n)
  show ?case
  proof (cases "n < 10")
    case True
    with "1.prems" have "c = char_of (48 + n)"
      by (subst (asm) digitsOf.simps) simp
    with True show ?thesis by simp
  next
    case False
    with "1.prems" have "c \<in> set (digitsOf (n div 10)) \<or> c = char_of (48 + n mod 10)"
      by (subst (asm) digitsOf.simps) auto
    then show ?thesis
    proof
      assume "c \<in> set (digitsOf (n div 10))"
      with "1.IH" False show ?thesis by simp
    next
      assume "c = char_of (48 + n mod 10)"
      moreover have "n mod 10 < 10" by simp
      ultimately show ?thesis by simp
    qed
  qed
qed

lemma digitsOf_value: "foldl (\<lambda>a c. 10 * a + (of_char c - 48)) 0 (digitsOf n) = n"
proof (induction n rule: digitsOf.induct)
  case (1 n)
  show ?case
  proof (cases "n < 10")
    case True
    then show ?thesis by (subst digitsOf.simps) simp
  next
    case False
    have "n mod 10 < 10" by simp
    then have "(of_char (char_of (48 + n mod 10) :: char) :: nat) = 48 + n mod 10"
      by simp
    with False "1.IH" show ?thesis
      by (subst digitsOf.simps) simp
  qed
qed

lemma digitsOf_inj: "digitsOf n = digitsOf m \<Longrightarrow> n = m"
  by (metis digitsOf_value)

lemma digitsOf_no_colon: "CHR '':'' \<notin> set (digitsOf n)"
  using digitsOf_digits [of "CHR '':''" n] by auto

lemma echoToken_inj: "echoToken n k = echoToken n' k' \<Longrightarrow> k = k'"
proof -
  assume "echoToken n k = echoToken n' k'"
  then have "digitsOf n @ CHR '':'' # digitsOf k = digitsOf n' @ CHR '':'' # digitsOf k'"
    by (simp add: echoToken_def)
  then have "digitsOf k = digitsOf k'"
    using digitsOf_no_colon by (simp add: append_Cons_eq_iff)
  then show ?thesis by (rule digitsOf_inj)
qed

lemma echo_fresh:
  assumes "pendingOk ps ts k"
  shows "echoToken now k \<notin> fst ` set ps"
proof
  assume "echoToken now k \<in> fst ` set ps"
  then obtain i where "(echoToken now k, i) \<in> set ps" by force
  with assms obtain n' k' where "k' < k" "echoToken now k = echoToken n' k'"
    unfolding pendingOk_def by blast
  with echoToken_inj show False by blast
qed

lemma pendingOk_distinct: "pendingOk ps ts k \<Longrightarrow> distinct (map fst ps)"
  by (simp add: pendingOk_def)

lemma pendingOk_timer: "pendingOk ps ts k \<Longrightarrow> t \<in> set ts \<Longrightarrow> task t = ActionTimeout e a \<Longrightarrow> (e, timerId t) \<in> set ps"
  by (simp add: pendingOk_def)

lemma pendingOk_entry:
  "pendingOk ps ts k \<Longrightarrow> (e, i) \<in> set ps \<Longrightarrow> \<exists>t\<in>set ts. timerId t = i \<and> (\<exists>a. task t = ActionTimeout e a)"
  unfolding pendingOk_def by blast

lemma pendingOk_echo:
  "pendingOk ps ts k \<Longrightarrow> (e, i) \<in> set ps \<Longrightarrow> \<exists>n j. j < k \<and> e = echoToken n j"
  unfolding pendingOk_def by blast

lemma pendingOk_add:
  assumes t: "timersOk ts n" and p: "pendingOk ps ts k" and e: "e = echoToken now k"
  shows "pendingOk (ps @ [(e, n)]) (ts @ [\<lparr>timerId = n, task = ActionTimeout e a, delayMs = d\<rparr>]) (Suc k)"
proof -
  have fresh: "e \<notin> fst ` set ps" using echo_fresh [OF p] e by simp
  show ?thesis
    unfolding pendingOk_def
  proof (intro conjI)
    show "distinct (map fst (ps @ [(e, n)]))"
      using pendingOk_distinct [OF p] fresh by simp
    show "\<forall>u\<in>set (ts @ [\<lparr>timerId = n, task = ActionTimeout e a, delayMs = d\<rparr>]).
            \<forall>e' a'. task u = ActionTimeout e' a' \<longrightarrow> (e', timerId u) \<in> set (ps @ [(e, n)])"
    proof (intro ballI allI impI)
      fix u e' a' assume u: "u \<in> set (ts @ [\<lparr>timerId = n, task = ActionTimeout e a, delayMs = d\<rparr>])"
        "task u = ActionTimeout e' a'"
      show "(e', timerId u) \<in> set (ps @ [(e, n)])"
      proof (cases "u \<in> set ts")
        case True
        from pendingOk_timer [OF p True u(2)] show ?thesis by simp
      next
        case False
        with u show ?thesis by auto
      qed
    qed
    show "\<forall>e' i. (e', i) \<in> set (ps @ [(e, n)]) \<longrightarrow>
            (\<exists>u\<in>set (ts @ [\<lparr>timerId = n, task = ActionTimeout e a, delayMs = d\<rparr>]).
               timerId u = i \<and> (\<exists>a'. task u = ActionTimeout e' a'))"
    proof (intro allI impI)
      fix e' i assume m: "(e', i) \<in> set (ps @ [(e, n)])"
      show "\<exists>u\<in>set (ts @ [\<lparr>timerId = n, task = ActionTimeout e a, delayMs = d\<rparr>]).
               timerId u = i \<and> (\<exists>a'. task u = ActionTimeout e' a')"
      proof (cases "(e', i) \<in> set ps")
        case True
        from pendingOk_entry [OF p True] show ?thesis by auto
      next
        case False
        with m have "e' = e" "i = n" by simp_all
        then show ?thesis by simp
      qed
    qed
    show "\<forall>e' i. (e', i) \<in> set (ps @ [(e, n)]) \<longrightarrow> (\<exists>n' k'. k' < Suc k \<and> e' = echoToken n' k')"
    proof (intro allI impI)
      fix e' i assume m: "(e', i) \<in> set (ps @ [(e, n)])"
      show "\<exists>n' k'. k' < Suc k \<and> e' = echoToken n' k'"
      proof (cases "(e', i) \<in> set ps")
        case True
        from pendingOk_echo [OF p True] obtain n' k' where "k' < k" "e' = echoToken n' k'"
          by blast
        then have "k' < Suc k \<and> e' = echoToken n' k'" by simp
        then show ?thesis by blast
      next
        case False
        with m have "e' = e" by simp
        with e have "k < Suc k \<and> e' = echoToken now k" by simp
        then show ?thesis by blast
      qed
    qed
  qed
qed

lemma reconnectOk_add_action:
  assumes "reconnectOk ts r st"
  shows "reconnectOk (ts @ [\<lparr>timerId = n, task = ActionTimeout e a, delayMs = d\<rparr>]) r st"
proof -
  from assms have a: "\<forall>t\<in>set ts. task t = Reconnect \<longrightarrow> r = Some (timerId t)"
    and b: "\<forall>i. r = Some i \<longrightarrow> (\<exists>t\<in>set ts. timerId t = i \<and> task t = Reconnect)"
    and c: "st \<longrightarrow> r = None"
    by (simp_all add: reconnectOk_def)
  show ?thesis
    unfolding reconnectOk_def
  proof (intro conjI)
    show "\<forall>t\<in>set (ts @ [\<lparr>timerId = n, task = ActionTimeout e a, delayMs = d\<rparr>]).
            task t = Reconnect \<longrightarrow> r = Some (timerId t)"
      using a by auto
    show "\<forall>i. r = Some i \<longrightarrow>
            (\<exists>t\<in>set (ts @ [\<lparr>timerId = n, task = ActionTimeout e a, delayMs = d\<rparr>]).
               timerId t = i \<and> task t = Reconnect)"
      using b by auto
    show "st \<longrightarrow> r = None" by (rule c)
  qed
qed

lemma pending_timer_is_action:
  assumes "timersOk ts n" "pendingOk ps ts k" "(e, i) \<in> set ps" "t \<in> set ts" "timerId t = i"
  shows "\<exists>a. task t = ActionTimeout e a"
proof -
  from pendingOk_entry [OF assms(2,3)] obtain u where
    u: "u \<in> set ts" "timerId u = i" "\<exists>a. task u = ActionTimeout e a"
    by blast
  from assms(1) have "distinct (map timerId ts)" by (simp add: timersOk_def)
  from timer_by_id [OF this assms(4) u(1)] assms(5) u show ?thesis by auto
qed

lemma pendingOk_remove:
  assumes t: "timersOk ts n" and p: "pendingOk ps ts k" and m: "(e, i) \<in> set ps"
  shows "pendingOk (mapDelete e ps) (filter (\<lambda>t. timerId t \<noteq> i) ts) k"
proof -
  have d: "distinct (map fst ps)" using p by (rule pendingOk_distinct)
  have uniq: "j = i" if "(e, j) \<in> set ps" for j
    using d m that by (meson eq_key_imp_eq_value)
  show ?thesis
    unfolding pendingOk_def mapDelete_def
  proof (intro conjI)
    show "distinct (map fst (filter (\<lambda>(k', v'). k' \<noteq> e) ps))"
      using d by (simp add: distinct_map_filter)
    show "\<forall>u\<in>set (filter (\<lambda>t. timerId t \<noteq> i) ts).
            \<forall>e' a. task u = ActionTimeout e' a \<longrightarrow> (e', timerId u) \<in> set (filter (\<lambda>(k', v'). k' \<noteq> e) ps)"
    proof (intro ballI allI impI)
      fix u e' a assume u: "u \<in> set (filter (\<lambda>t. timerId t \<noteq> i) ts)" "task u = ActionTimeout e' a"
      then have u': "u \<in> set ts" "timerId u \<noteq> i" by simp_all
      have in_ps: "(e', timerId u) \<in> set ps" using pendingOk_timer [OF p u'(1) u(2)] .
      have "e' \<noteq> e"
      proof
        assume "e' = e"
        with in_ps uniq u'(2) show False by blast
      qed
      with in_ps show "(e', timerId u) \<in> set (filter (\<lambda>(k', v'). k' \<noteq> e) ps)" by simp
    qed
    show "\<forall>e' j. (e', j) \<in> set (filter (\<lambda>(k', v'). k' \<noteq> e) ps) \<longrightarrow>
            (\<exists>u\<in>set (filter (\<lambda>t. timerId t \<noteq> i) ts). timerId u = j \<and> (\<exists>a. task u = ActionTimeout e' a))"
    proof (intro allI impI)
      fix e' j assume "(e', j) \<in> set (filter (\<lambda>(k', v'). k' \<noteq> e) ps)"
      then have in_ps: "(e', j) \<in> set ps" and ne: "e' \<noteq> e" by simp_all
      from pendingOk_entry [OF p in_ps] obtain u where
        u: "u \<in> set ts" "timerId u = j" "\<exists>a. task u = ActionTimeout e' a"
        by blast
      have "j \<noteq> i"
      proof
        assume "j = i"
        with pending_timer_is_action [OF t p m u(1)] u ne show False by auto
      qed
      with u show "\<exists>u\<in>set (filter (\<lambda>t. timerId t \<noteq> i) ts). timerId u = j \<and> (\<exists>a. task u = ActionTimeout e' a)"
        by auto
    qed
    show "\<forall>e' j. (e', j) \<in> set (filter (\<lambda>(k', v'). k' \<noteq> e) ps) \<longrightarrow> (\<exists>n' k'. k' < k \<and> e' = echoToken n' k')"
    proof (intro allI impI)
      fix e' j assume "(e', j) \<in> set (filter (\<lambda>(k', v'). k' \<noteq> e) ps)"
      then have "(e', j) \<in> set ps" by simp
      from pendingOk_echo [OF p this] show "\<exists>n' k'. k' < k \<and> e' = echoToken n' k'" .
    qed
  qed
qed

lemma reconnectOk_remove_action:
  assumes t: "timersOk ts n" and p: "pendingOk ps ts k" and m: "(e, i) \<in> set ps"
    and r: "reconnectOk ts r st"
  shows "reconnectOk (filter (\<lambda>t. timerId t \<noteq> i) ts) r st"
proof -
  have ne: "timerId u \<noteq> i" if "u \<in> set ts" "task u = Reconnect" for u
    using pending_timer_is_action [OF t p m that(1)] that(2) by auto
  from r have a: "\<forall>t\<in>set ts. task t = Reconnect \<longrightarrow> r = Some (timerId t)"
    and b: "\<forall>i. r = Some i \<longrightarrow> (\<exists>t\<in>set ts. timerId t = i \<and> task t = Reconnect)"
    and c: "st \<longrightarrow> r = None"
    by (simp_all add: reconnectOk_def)
  show ?thesis
    unfolding reconnectOk_def
  proof (intro conjI)
    show "\<forall>t\<in>set (filter (\<lambda>t. timerId t \<noteq> i) ts). task t = Reconnect \<longrightarrow> r = Some (timerId t)"
      using a by simp
    show "\<forall>j. r = Some j \<longrightarrow>
            (\<exists>t\<in>set (filter (\<lambda>t. timerId t \<noteq> i) ts). timerId t = j \<and> task t = Reconnect)"
    proof (intro allI impI)
      fix j assume "r = Some j"
      with b obtain u where u: "u \<in> set ts" "timerId u = j" "task u = Reconnect" by blast
      with ne [OF u(1,3)] show "\<exists>t\<in>set (filter (\<lambda>t. timerId t \<noteq> i) ts). timerId t = j \<and> task t = Reconnect"
        by auto
    qed
    show "st \<longrightarrow> r = None" by (rule c)
  qed
qed

lemma mapSet_fresh: "k \<notin> fst ` set m \<Longrightarrow> mapSet k v m = m @ [(k, v)]"
  by (simp add: mapSet_def)

lemma sendAction_closed:
  "\<not> isOpen c \<Longrightarrow> sendAction act ps options now sendThrows c = (NotConnected ''OneBot is not connected'', c, [])"
  by (simp add: sendAction_def)

lemma sendAction_sent:
  assumes "clientInvariant c" "isOpen c"
  shows "sendAction act ps options now None c =
     (Awaiting (echoToken now (actionCounter c)),
      c\<lparr>actionCounter := Suc (actionCounter c),
        timers := timers c @ [\<lparr>timerId = nextTimerId c,
                               task = ActionTimeout (echoToken now (actionCounter c)) act,
                               delayMs = actionTimeoutMs options\<rparr>],
        nextTimerId := Suc (nextTimerId c),
        pending := pending c @ [(echoToken now (actionCounter c), nextTimerId c)]\<rparr>,
      [SocketSend (the (ws c))
         \<lparr>action = act, params = ps, echo = echoToken now (actionCounter c),
          requestSelf = (case (case options of None \<Rightarrow> None | Some opts \<Rightarrow> optSelf opts) of
                           Some s' \<Rightarrow> Some s' | None \<Rightarrow> self c)\<rparr>])"
proof -
  from assms(1) have "pendingOk (pending c) (timers c) (actionCounter c)"
    by (simp add: clientInvariant_def)
  from echo_fresh [OF this] have "echoToken now (actionCounter c) \<notin> fst ` set (pending c)" .
  with assms(2) show ?thesis
    by (simp add: sendAction_def Let_def setTimeout_def mapSet_fresh split: option.splits)
qed

lemma invariant_sent:
  assumes "clientInvariant c"
  shows "clientInvariant
     (c\<lparr>actionCounter := Suc (actionCounter c),
        timers := timers c @ [\<lparr>timerId = nextTimerId c,
                               task = ActionTimeout (echoToken now (actionCounter c)) act,
                               delayMs = d\<rparr>],
        nextTimerId := Suc (nextTimerId c),
        pending := pending c @ [(echoToken now (actionCounter c), nextTimerId c)]\<rparr>)"
proof -
  from assms have t: "timersOk (timers c) (nextTimerId c)"
    and r: "reconnectOk (timers c) (reconnectTimer c) (stopped c)"
    and p: "pendingOk (pending c) (timers c) (actionCounter c)"
    and s: "socketsOk (ws c) (sockets c) (abortSignal c) (abortListeners c) (stopped c) (reconnectTimer c)"
    by (simp_all add: clientInvariant_def)
  from timersOk_add [OF t] reconnectOk_add_action [OF r] pendingOk_add [OF t p refl] s
  show ?thesis by (simp add: clientInvariant_def)
qed

lemma filter_new_timer:
  assumes "timersOk ts n"
  shows "filter (\<lambda>t. timerId t \<noteq> n) (ts @ [\<lparr>timerId = n, task = k, delayMs = d\<rparr>]) = ts"
proof -
  from assms have "\<forall>t\<in>set ts. timerId t \<noteq> n" by (auto simp: timersOk_def)
  then show ?thesis by (simp add: filter_id_conv)
qed

lemma mapDelete_fresh: "k \<notin> fst ` set m \<Longrightarrow> mapDelete k (m @ [(k, v)]) = m"
  by (force simp: mapDelete_def filter_id_conv)

lemma sendAction_failed:
  assumes "clientInvariant c" "isOpen c"
  shows "sendAction act ps options now (Some err) c =
     (Awaiting (echoToken now (actionCounter c)),
      c\<lparr>actionCounter := Suc (actionCounter c), nextTimerId := Suc (nextTimerId c)\<rparr>,
      [Reject (echoToken now (actionCounter c)) err])"
proof -
  from assms(1) have p: "pendingOk (pending c) (timers c) (actionCounter c)"
    and t: "timersOk (timers c) (nextTimerId c)"
    by (simp_all add: clientInvariant_def)
  from echo_fresh [OF p] have f: "echoToken now (actionCounter c) \<notin> fst ` set (pending c)" .
  with assms(2) filter_new_timer [OF t] show ?thesis
    by (simp add: sendAction_def Let_def setTimeout_def mapSet_fresh clearTimeout_def mapDelete_fresh)
qed

lemma invariant_sendAction:
  assumes "clientInvariant c"
  shows "clientInvariant (fst (snd (sendAction act ps options now sendThrows c)))"
proof (cases "isOpen c")
  case False
  with assms show ?thesis by (simp add: sendAction_closed)
next
  case True
  show ?thesis
  proof (cases sendThrows)
    case None
    with assms True show ?thesis
      by (simp add: sendAction_sent invariant_sent)
  next
    case (Some err)
    from assms have "clientInvariant (c\<lparr>actionCounter := Suc (actionCounter c), nextTimerId := Suc (nextTimerId c)\<rparr>)"
      unfolding clientInvariant_def
      by (auto simp: timersOk_def intro: pendingOk_mono less_SucI)
    with assms True Some show ?thesis
      by (simp add: sendAction_failed)
  qed
qed

lemma map_of_pending: "pendingOk ps ts k \<Longrightarrow> (map_of ps e = Some i) = ((e, i) \<in> set ps)"
  using pendingOk_distinct [of ps ts k] by (auto dest: map_of_SomeD)

lemma invariant_remove:
  assumes "clientInvariant c" "(e, i) \<in> set (pending c)"
  shows "clientInvariant (c\<lparr>timers := filter (\<lambda>t. timerId t \<noteq> i) (timers c), pending := mapDelete e (pending c)\<rparr>)"
proof -
  from assms(1) have t: "timersOk (timers c) (nextTimerId c)"
    and r: "reconnectOk (timers c) (reconnectTimer c) (stopped c)"
    and p: "pendingOk (pending c) (timers c) (actionCounter c)"
    and s: "socketsOk (ws c) (sockets c) (abortSignal c) (abortListeners c) (stopped c) (reconnectTimer c)"
    by (simp_all add: clientInvariant_def)
  from timersOk_filter [OF t] reconnectOk_remove_action [OF t p assms(2) r]
    pendingOk_remove [OF t p assms(2)] s
  show ?thesis by (simp add: clientInvariant_def)
qed

lemma handlePayload_cases:
  "handlePayload payload c =
     (if isObjectValue payload \<and> stringProp payload ''status'' \<noteq> None
         \<and> stringProp payload ''echo'' \<noteq> None
      then (case map_of (pending c) (the (stringProp payload ''echo'')) of
              Some i \<Rightarrow>
                (c\<lparr>timers := filter (\<lambda>t. timerId t \<noteq> i) (timers c),
                   pending := mapDelete (the (stringProp payload ''echo'')) (pending c)\<rparr>,
                 [Resolve (the (stringProp payload ''echo'')) payload])
            | None \<Rightarrow> (c, []))
      else if isObjectValue payload \<and> stringProp payload ''type'' \<noteq> None
              \<and> stringProp payload ''detail_type'' \<noteq> None
      then (c, [OnEvent payload])
      else (c, []))"
  by (simp add: handlePayload_def clearTimeout_def split: option.splits)

lemma invariant_handlePayload:
  assumes "clientInvariant c"
  shows "clientInvariant (fst (handlePayload payload c))"
proof (cases "isObjectValue payload \<and> stringProp payload ''status'' \<noteq> None
         \<and> stringProp payload ''echo'' \<noteq> None")
  case False
  with assms show ?thesis by (auto simp: handlePayload_cases)
next
  case True
  show ?thesis
  proof (cases "map_of (pending c) (the (stringProp payload ''echo''))")
    case None
    with True assms show ?thesis by (simp add: handlePayload_cases)
  next
    case (Some i)
    then have "(the (stringProp payload ''echo''), i) \<in> set (pending c)"
      by (rule map_of_SomeD)
    from invariant_remove [OF assms this] True Some show ?thesis
      by (simp add: handlePayload_cases)
  qed
qed

lemma find_timer:
  "find (\<lambda>t. timerId t = i) ts = Some t \<Longrightarrow> t \<in> set ts \<and> timerId t = i"
  by (auto simp: find_Some_iff)

lemma find_timer_none: "find (\<lambda>t. timerId t = i) ts = None \<longleftrightarrow> (\<forall>t\<in>set ts. timerId t \<noteq> i)"
  by (auto simp: find_None_iff)

lemma invariant_onTimer:
  assumes "clientInvariant c"
  shows "clientInvariant (fst (onTimer lib i c))"
proof (cases "find (\<lambda>t. timerId t = i) (timers c)")
  case None
  with assms show ?thesis by (simp add: onTimer_def)
next
  case (Some t)
  then have t: "t \<in> set (timers c)" "timerId t = i" using find_timer by blast+
  from assms have tok: "timersOk (timers c) (nextTimerId c)"
    and r: "reconnectOk (timers c) (reconnectTimer c) (stopped c)"
    and p: "pendingOk (pending c) (timers c) (actionCounter c)"
    and s: "socketsOk (ws c) (sockets c) (abortSignal c) (abortListeners c) (stopped c) (reconnectTimer c)"
    by (simp_all add: clientInvariant_def)
  show ?thesis
  proof (cases "task t")
    case Reconnect
    with r t have rt: "reconnectTimer c = Some i" by (simp add: reconnectOk_def)
    have e: "(clearTimeout i c)\<lparr>reconnectTimer := None\<rparr> = clearReconnectTimer c"
      using rt by (simp add: clearReconnectTimer_def)
    have inv: "clientInvariant (clearReconnectTimer c)"
    proof -
      from rt r have ns: "\<not> stopped c" by (auto simp: reconnectOk_def)
      from reconnectOk_clear [of "timers c" i "stopped c" "stopped c"] r rt
      have "reconnectOk (filter (\<lambda>t. timerId t \<noteq> i) (timers c)) None (stopped c)" by simp
      moreover from pendingOk_clear_reconnect [OF tok _ p, of i "stopped c"] r rt
      have "pendingOk (pending c) (filter (\<lambda>t. timerId t \<noteq> i) (timers c)) (actionCounter c)" by simp
      moreover from s rt have "socketsOk (ws c) (sockets c) (abortSignal c) (abortListeners c) (stopped c) None"
        by (auto simp: socketsOk_def)
      ultimately show ?thesis
        using timersOk_filter [OF tok] rt
        by (simp add: clearReconnectTimer_eq clientInvariant_def)
    qed
    from s rt have a: "abortSignal (clearReconnectTimer c) \<noteq> Some True"
      by (auto simp: socketsOk_def clearReconnectTimer_eq)
    from invariant_connect [OF inv, of lib] a Some Reconnect e show ?thesis
      by (simp add: onTimer_def Let_def)
  next
    case (ActionTimeout e act)
    from pendingOk_timer [OF p t(1) ActionTimeout] t(2) have "(e, i) \<in> set (pending c)" by simp
    from invariant_remove [OF assms this] Some ActionTimeout show ?thesis
      by (simp add: onTimer_def Let_def clearTimeout_def)
  qed
qed

lemma invariant_sockets_update:
  assumes "clientInvariant c" "i < length (sockets c)"
  shows "clientInvariant (c\<lparr>sockets := (sockets c)[i := x]\<rparr>)"
  using assms by (auto simp: clientInvariant_def socketsOk_def)

lemma invariant_onSocketOpen:
  "clientInvariant c \<Longrightarrow> socketConnecting i c \<Longrightarrow> clientInvariant (fst (onSocketOpen i c))"
  by (simp add: onSocketOpen_def socketConnecting_def invariant_sockets_update)

lemma invariant_onSocketMessage:
  "clientInvariant c \<Longrightarrow> clientInvariant (fst (onSocketMessage data c))"
  by (cases data) (simp_all add: onSocketMessage_def invariant_handlePayload)

lemma invariant_onSocketError:
  "clientInvariant c \<Longrightarrow> clientInvariant (fst (onSocketError m c))"
  by (simp add: onSocketError_def)

lemma onSocketClose_state:
  assumes "clientInvariant c" "socketLive i c"
  shows "fst (onSocketClose i code reasonText c) =
     (let c1 = c\<lparr>sockets := (sockets c)[i := CLOSED], timers := reconnectTimers c, pending := []\<rparr>
      in if stopped c then c1 else scheduleReconnect c1)"
proof -
  from assms have inv0: "clientInvariant (c\<lparr>sockets := (sockets c)[i := CLOSED]\<rparr>)"
    by (simp add: invariant_sockets_update socketLive_def)
  obtain c1 e1 where ra:
    "rejectAllPending ''OneBot connection closed'' (c\<lparr>sockets := (sockets c)[i := CLOSED]\<rparr>) = (c1, e1)"
    by (cases "rejectAllPending ''OneBot connection closed'' (c\<lparr>sockets := (sockets c)[i := CLOSED]\<rparr>)")
  with rejectAllPending_state [OF inv0, of "''OneBot connection closed''"]
  have c1: "c1 = c\<lparr>sockets := (sockets c)[i := CLOSED], timers := reconnectTimers c, pending := []\<rparr>"
    by (simp add: reconnectTimers_def)
  then have "stopped c1 = stopped c" by simp
  with ra c1 show ?thesis
    by (simp add: onSocketClose_def Let_def)
qed

lemma invariant_onSocketClose:
  assumes "clientInvariant c" "socketLive i c"
  shows "clientInvariant (fst (onSocketClose i code reasonText c))"
proof -
  from assms have inv0: "clientInvariant (c\<lparr>sockets := (sockets c)[i := CLOSED]\<rparr>)"
    by (simp add: invariant_sockets_update socketLive_def)
  from invariant_no_pending [OF inv0]
  have inv1: "clientInvariant (c\<lparr>sockets := (sockets c)[i := CLOSED], timers := reconnectTimers c, pending := []\<rparr>)"
    by (simp add: reconnectTimers_def)
  from assms(2) have "sockets (c\<lparr>sockets := (sockets c)[i := CLOSED], timers := reconnectTimers c, pending := []\<rparr>) \<noteq> []"
    by (auto simp: socketLive_def)
  from invariant_scheduleReconnect [OF inv1 this] inv1 show ?thesis
    by (simp add: onSocketClose_state [OF assms] Let_def)
qed

lemma stop_stopped: "stopped (fst (stop c))"
  by (simp add: stop_def Let_def rejectAllPending_eq closeSocket_def clearReconnectTimer_eq
        split: prod.splits option.splits)

lemma fst_stopTimes_Suc: "fst (stopTimes (Suc n) c) = fst (stopTimes n (fst (stop c)))"
  by (simp add: case_prod_beta Let_def)

lemma fst_run_Cons: "fst (run lib (s # ss) c) = fst (run lib ss (fst (step lib s c)))"
  by (simp add: case_prod_beta Let_def)

lemma fst_step_SendAction:
  "fst (step lib (SendAction act ps options now sendThrows) c) =
     fst (snd (sendAction act ps options now sendThrows c))"
  by (simp add: case_prod_beta)

lemma invariant_stopTimes:
  "clientInvariant c \<Longrightarrow> clientInvariant (fst (stopTimes n c))"
proof (induction n arbitrary: c)
  case 0
  then show ?case by simp
next
  case (Suc n)
  from Suc.IH [OF invariant_stop [OF Suc.prems]] show ?case
    by (simp only: fst_stopTimes_Suc)
qed

lemma stopTimes_stopped: "stopped c \<Longrightarrow> stopped (fst (stopTimes n c))"
proof (induction n arbitrary: c)
  case 0
  then show ?case by simp
next
  case (Suc n)
  from Suc.IH [OF stop_stopped [of c]] show ?case
    by (simp only: fst_stopTimes_Suc)
qed

lemma invariant_onAbort:
  assumes "clientInvariant c"
  shows "clientInvariant (fst (onAbort c))"
proof (cases "abortSignal c = Some False")
  case False
  with assms show ?thesis by (simp add: onAbort_def)
next
  case True
  define c' where "c' = c\<lparr>abortSignal := Some True, abortListeners := 0\<rparr>"
  from assms have t: "timersOk (timers c') (nextTimerId c')"
    and r: "reconnectOk (timers c') (reconnectTimer c') (stopped c')"
    and p: "pendingOk (pending c') (timers c') (actionCounter c')"
    and s: "socketsOk (ws c) (sockets c) (abortSignal c) (abortListeners c) (stopped c) (reconnectTimer c)"
    by (simp_all add: clientInvariant_def c'_def)
  show ?thesis
  proof (cases "abortListeners c")
    case 0
    with s True have "reconnectTimer c = None" "sockets c = []" "\<forall>i. ws c = Some i \<longrightarrow> i < length (sockets c)"
      unfolding socketsOk_def by blast+
    then have "socketsOk (ws c') (sockets c') (abortSignal c') (abortListeners c') (stopped c') (reconnectTimer c')"
      by (auto simp: socketsOk_def c'_def)
    with t r p have "clientInvariant c'" by (simp add: clientInvariant_def)
    with True 0 show ?thesis by (simp add: onAbort_def c'_def)
  next
    case (Suc n)
    have "abortSignal c' = Some False \<and> abortListeners c' = 0 \<longrightarrow> sockets c' = []"
      by (simp add: c'_def)
    from invariant_stop_general(1) [OF t r p this]
    have "clientInvariant (fst (stop c'))" .
    from invariant_stopTimes [OF this, of n] True Suc show ?thesis
      by (simp add: onAbort_def c'_def [symmetric] case_prod_beta Let_def)
  qed
qed

lemma invariant_step:
  assumes "clientInvariant c"
  shows "clientInvariant (fst (step lib s c))"
proof (cases s)
  case Start
  with assms show ?thesis by (simp add: invariant_start)
next
  case Stop
  with assms show ?thesis by (simp add: invariant_stop)
next
  case (SetSelf x)
  with assms show ?thesis by (simp add: setSelf_def clientInvariant_def)
next
  case (SendAction act ps options now sendThrows)
  with invariant_sendAction [OF assms, of act ps options now sendThrows] show ?thesis
    by (simp only: fst_step_SendAction)
next
  case (SocketOpened i)
  with assms show ?thesis by (simp add: invariant_onSocketOpen)
next
  case (SocketMessage i data)
  with assms show ?thesis by (simp add: invariant_onSocketMessage)
next
  case (SocketError i m)
  with assms show ?thesis by (simp add: invariant_onSocketError)
next
  case (SocketClosed i code reasonText)
  with assms show ?thesis by (simp add: invariant_onSocketClose)
next
  case (TimerFired i)
  with assms show ?thesis by (simp add: invariant_onTimer)
next
  case Aborted
  with assms show ?thesis by (simp add: invariant_onAbort)
qed

lemma invariant_run: "clientInvariant c \<Longrightarrow> clientInvariant (fst (run lib ss c))"
proof (induction ss arbitrary: c)
  case Nil
  then show ?case by simp
next
  case (Cons s ss)
  from Cons.IH [OF invariant_step [OF Cons.prems, of lib s]] show ?case
    by (simp only: fst_run_Cons)
qed

lemma reachable_invariant: "reachable lib c \<Longrightarrow> clientInvariant c"
  by (induction rule: reachable.induct) (simp_all add: invariant_new invariant_step)

lemma reachable_run: "reachable lib c \<Longrightarrow> reachable lib (fst (run lib ss c))"
proof (induction ss arbitrary: c)
  case Nil
  then show ?case by simp
next
  case (Cons s ss)
  from Cons.IH [OF reachable_step [OF Cons.prems, of s]] show ?case
    by (simp only: fst_run_Cons)
qed

lemma connect_stopped: "stopped (fst (connect lib c)) = stopped c"
  by (simp add: connect_def Let_def split: option.splits)

lemma step_stopped:
  assumes "stopped c"
  shows "stopped (fst (step lib s c))"
proof (cases s)
  case Start
  with assms show ?thesis by (simp add: start_def connect_stopped)
next
  case Stop
  then show ?thesis by (simp add: stop_stopped)
next
  case (SetSelf x)
  with assms show ?thesis by (simp add: setSelf_def)
next
  case (SendAction act ps options now sendThrows)
  with assms show ?thesis
    by (simp add: sendAction_def Let_def setTimeout_def clearTimeout_def split: prod.splits option.splits)
next
  case (SocketOpened i)
  with assms show ?thesis by (simp add: onSocketOpen_def)
next
  case (SocketMessage i data)
  with assms show ?thesis
    by (cases data) (auto simp: onSocketMessage_def handlePayload_cases split: option.splits)
next
  case (SocketError i m)
  with assms show ?thesis by (simp add: onSocketError_def)
next
  case (SocketClosed i code reasonText)
  with assms show ?thesis
    by (simp add: onSocketClose_def Let_def rejectAllPending_eq split: prod.splits)
next
  case (TimerFired i)
  with assms show ?thesis
    by (simp add: onTimer_def Let_def connect_stopped clearTimeout_def split: option.splits TimerTask.splits)
next
  case Aborted
  with assms show ?thesis
    by (simp add: onAbort_def stopTimes_stopped)
qed

lemma run_stopped: "stopped c \<Longrightarrow> stopped (fst (run lib ss c))"
proof (induction ss arbitrary: c)
  case Nil
  then show ?case by simp
next
  case (Cons s ss)
  from Cons.IH [OF step_stopped [OF Cons.prems, of lib s]] show ?case
    by (simp only: fst_run_Cons)
qed

lemma stopped_no_reconnect:
  assumes "clientInvariant c" "stopped c"
  shows "reconnectTimer c = None" "reconnectTimers c = []"
proof -
  from assms have r: "reconnectOk (timers c) (reconnectTimer c) True"
    by (simp add: clientInvariant_def)
  then show n: "reconnectTimer c = None" by (simp add: reconnectOk_def)
  with r show "reconnectTimers c = []"
    by (auto simp: reconnectOk_def reconnectTimers_def filter_empty_conv)
qed

lemma at_most_one:
  assumes "distinct xs" "\<forall>x\<in>set xs. x = a"
  shows "length xs \<le> 1"
proof (cases xs)
  case Nil
  then show ?thesis by simp
next
  case (Cons x ys)
  with assms have "ys = []" by (cases ys) auto
  with Cons show ?thesis by simp
qed

lemma one_reconnect_timer:
  assumes "clientInvariant c"
  shows "length (reconnectTimers c) \<le> 1"
    "reconnectTimer c \<noteq> None \<Longrightarrow> length (reconnectTimers c) = 1"
proof -
  from assms have t: "timersOk (timers c) (nextTimerId c)"
    and r: "reconnectOk (timers c) (reconnectTimer c) (stopped c)"
    by (simp_all add: clientInvariant_def)
  have d: "distinct (map timerId (reconnectTimers c))"
    using t by (simp add: timersOk_def reconnectTimers_def distinct_map_filter)
  show le: "length (reconnectTimers c) \<le> 1"
  proof (cases "reconnectTimer c")
    case None
    with r have "reconnectTimers c = []"
      by (auto simp: reconnectOk_def reconnectTimers_def filter_empty_conv)
    then show ?thesis by simp
  next
    case (Some i)
    with r have "\<forall>x\<in>set (map timerId (reconnectTimers c)). x = i"
      by (auto simp: reconnectOk_def reconnectTimers_def)
    from at_most_one [OF d this] show ?thesis by simp
  qed
  show "length (reconnectTimers c) = 1" if "reconnectTimer c \<noteq> None"
  proof -
    from that r obtain u where "u \<in> set (timers c)" "task u = Reconnect"
      by (auto simp: reconnectOk_def)
    then have "reconnectTimers c \<noteq> []" by (auto simp: reconnectTimers_def filter_empty_conv)
    with le show ?thesis by (cases "reconnectTimers c") simp_all
  qed
qed

lemma stop_pending: "pending (fst (stop c)) = []" "actionCounter (fst (stop c)) = actionCounter c"
  by (simp_all add: stop_def Let_def rejectAllPending_eq closeSocket_def clearReconnectTimer_eq
        case_prod_beta split: option.splits)

lemma stopTimes_pending:
  "set (pending (fst (stopTimes n c))) \<subseteq> set (pending c)"
  "actionCounter (fst (stopTimes n c)) = actionCounter c"
proof (induction n arbitrary: c)
  case 0
  { case 1 show ?case by simp }
  { case 2 show ?case by simp }
next
  case (Suc n)
  { case 1
    from Suc(1) [of "fst (stop c)"] show ?case
      by (simp only: fst_stopTimes_Suc stop_pending) simp }
  { case 2
    from Suc(2) [of "fst (stop c)"] show ?case
      by (simp only: fst_stopTimes_Suc stop_pending) }
qed

lemma connect_pending:
  "pending (fst (connect lib c)) = pending c" "actionCounter (fst (connect lib c)) = actionCounter c"
  by (simp_all add: connect_def Let_def split: option.splits)

lemma scheduleReconnect_pending:
  "pending (scheduleReconnect c) = pending c" "actionCounter (scheduleReconnect c) = actionCounter c"
  by (simp_all add: scheduleReconnect_eq)

lemma mapDelete_subset: "set (mapDelete e ps) \<subseteq> set ps"
  by (auto simp: mapDelete_def)

lemma step_pending:
  assumes "clientInvariant c"
  shows "fst ` set (pending (fst (step lib s c)))
           \<subseteq> fst ` set (pending c) \<union> {e. \<exists>now. e = echoToken now (actionCounter c)}"
    and "actionCounter c \<le> actionCounter (fst (step lib s c))"
proof -
  have "fst ` set (pending (fst (step lib s c)))
           \<subseteq> fst ` set (pending c) \<union> {e. \<exists>now. e = echoToken now (actionCounter c)}
        \<and> actionCounter c \<le> actionCounter (fst (step lib s c))"
  proof (cases s)
    case Start
    then show ?thesis by (simp add: start_def connect_pending)
  next
    case Stop
    then show ?thesis by (simp add: stop_pending)
  next
    case (SetSelf x)
    then show ?thesis by (simp add: setSelf_def)
  next
    case (SendAction act ps options now sendThrows)
    show ?thesis
    proof (cases "isOpen c")
      case False
      with SendAction show ?thesis by (simp add: sendAction_closed)
    next
      case True
      show ?thesis
      proof (cases sendThrows)
        case None
        with SendAction True assms show ?thesis
          by (auto simp: sendAction_sent)
      next
        case (Some err)
        with SendAction True assms show ?thesis
          by (simp add: sendAction_failed)
      qed
    qed
  next
    case (SocketOpened i)
    then show ?thesis by (simp add: onSocketOpen_def)
  next
    case (SocketMessage i data)
    have "set (pending (fst (handlePayload p c))) \<subseteq> set (pending c)
          \<and> actionCounter (fst (handlePayload p c)) = actionCounter c" for p
      using mapDelete_subset by (auto simp: handlePayload_cases split: option.splits)
    with SocketMessage show ?thesis
      by (cases data) (auto simp: onSocketMessage_def)
  next
    case (SocketError i m)
    then show ?thesis by (simp add: onSocketError_def)
  next
    case (SocketClosed i code reasonText)
    then show ?thesis
      by (simp add: onSocketClose_def Let_def rejectAllPending_eq scheduleReconnect_pending
            case_prod_beta)
  next
    case (TimerFired i)
    have "set (pending (fst (onTimer lib i c))) \<subseteq> set (pending c)
          \<and> actionCounter (fst (onTimer lib i c)) = actionCounter c"
      using mapDelete_subset
      by (auto simp: onTimer_def Let_def connect_pending clearTimeout_def
            split: option.splits TimerTask.splits)
    with TimerFired show ?thesis by auto
  next
    case Aborted
    have "set (pending (fst (onAbort c))) \<subseteq> set (pending c)
          \<and> actionCounter (fst (onAbort c)) = actionCounter c"
      using stopTimes_pending [of "abortListeners c" "c\<lparr>abortSignal := Some True, abortListeners := 0\<rparr>"]
      by (simp add: onAbort_def)
    with Aborted show ?thesis by auto
  qed
  then show "fst ` set (pending (fst (step lib s c)))
           \<subseteq> fst ` set (pending c) \<union> {e. \<exists>now. e = echoToken now (actionCounter c)}"
    and "actionCounter c \<le> actionCounter (fst (step lib s c))"
    by simp_all
qed

lemma spentEcho_step:
  assumes "clientInvariant c" "spentEcho e c"
  shows "spentEcho e (fst (step lib s c))"
proof -
  from assms(2) obtain n k where k: "k < actionCounter c" "e = echoToken n k"
    and f: "e \<notin> fst ` set (pending c)"
    by (auto simp: spentEcho_def)
  have "e \<noteq> echoToken now (actionCounter c)" for now
    using k echoToken_inj by blast
  with f step_pending(1) [OF assms(1), of lib s]
  have "e \<notin> fst ` set (pending (fst (step lib s c)))" by blast
  moreover from k step_pending(2) [OF assms(1), of lib s]
  have "k < actionCounter (fst (step lib s c))" by simp
  ultimately show ?thesis using k(2) unfolding spentEcho_def by blast
qed

lemma spentEcho_run:
  "clientInvariant c \<Longrightarrow> spentEcho e c \<Longrightarrow> spentEcho e (fst (run lib ss c))"
proof (induction ss arbitrary: c)
  case Nil
  then show ?case by simp
next
  case (Cons s ss)
  from Cons.IH [OF invariant_step [OF Cons.prems(1)] spentEcho_step [OF Cons.prems]]
  show ?case by (simp only: fst_run_Cons)
qed

lemma stringProp_object: "stringProp p k = Some v \<Longrightarrow> isObjectValue p"
  by (cases p) (simp_all add: stringProp_def)

lemma late_response:
  assumes "e \<notin> fst ` set (pending c)" "stringProp payload ''echo'' = Some e"
    "stringProp payload ''status'' = Some st"
  shows "handlePayload payload c = (c, [])"
proof -
  from assms(1) have "map_of (pending c) e = None"
    by (simp add: map_of_eq_None_iff)
  with assms(2,3) stringProp_object [OF assms(2)] show ?thesis
    by (simp add: handlePayload_cases)
qed

lemma mapDelete_keys: "e \<notin> fst ` set (mapDelete e ps)"
  by (auto simp: mapDelete_def)

lemma find_by_id:
  "distinct (map timerId ts) \<Longrightarrow> t \<in> set ts \<Longrightarrow> find (\<lambda>u. timerId u = timerId t) ts = Some t"
  by (induction ts) (auto simp: rev_image_eqI)

lemma onTimer_timeout:
  assumes "clientInvariant c" "t \<in> set (timers c)" "task t = ActionTimeout e act"
  shows "onTimer lib (timerId t) c =
           (c\<lparr>timers := filter (\<lambda>u. timerId u \<noteq> timerId t) (timers c),
              pending := mapDelete e (pending c)\<rparr>,
            [Reject e (''OneBot action timeout: '' @ act)])"
proof -
  from assms(1) have "distinct (map timerId (timers c))"
    by (simp add: clientInvariant_def timersOk_def)
  from find_by_id [OF this assms(2)] assms(3) show ?thesis
    by (simp add: onTimer_def Let_def clearTimeout_def)
qed

lemma onTimer_unset:
  assumes "\<forall>t\<in>set (timers c). timerId t \<noteq> i"
  shows "onTimer lib i c = (c, [])"
  using assms by (simp add: onTimer_def find_timer_none [THEN iffD2])

lemma onSocketClose_effects:
  "snd (onSocketClose i code reasonText c) =
     [LogWarn (''onebot: websocket closed ('' @ digitsOf code @ '') '' @ reasonText),
      OnClose code reasonText]
     @ map (\<lambda>(e, t). Reject e ''OneBot connection closed'') (pending c)"
  by (simp add: onSocketClose_def Let_def rejectAllPending_eq case_prod_beta)



lemma digit_chars:
  "char_of (48 :: nat) = CHR ''0''" "char_of (49 :: nat) = CHR ''1''" "char_of (50 :: nat) = CHR ''2''"
  "char_of (51 :: nat) = CHR ''3''" "char_of (52 :: nat) = CHR ''4''" "char_of (53 :: nat) = CHR ''5''"
  "char_of (54 :: nat) = CHR ''6''" "char_of (55 :: nat) = CHR ''7''" "char_of (56 :: nat) = CHR ''8''"
  "char_of (57 :: nat) = CHR ''9''"
  by code_simp+

lemma exampleRunning_eq:
  "exampleRunning =
     \<lparr>wsUrl = ''ws://h'', accessToken = None, reconnectDelayMs = 2500, abortSignal = Some False,
      abortListeners = 2, ws = Some 1, stopped = False, reconnectTimer = None, actionCounter = 1,
      pending = [(''onebot:1700:0'', 0)], self = None, sockets = [CONNECTING, OPEN],
      timers = [\<lparr>timerId = 0, task = ActionTimeout ''onebot:1700:0'' ''send_message'', delayMs = 10000\<rparr>],
      nextTimerId = 1\<rparr>"
  by (simp add: exampleRunning_def exampleSteps_def exampleClient_def newOneBotClient_def
        start_def connect_def Let_def withAccessToken_def examplePlatform_def hasUrlScheme_def
        isC0OrSpace_def isTabOrNewline_def isAsciiAlpha_def isSchemeChar_def
        socketConnecting_def onSocketOpen_def sendAction_def isOpen_def setTimeout_def
        mapSet_def echoToken_def digitsOf.simps actionTimeoutMs_def digit_chars)

lemma example_reachable: "reachable examplePlatform exampleRunning"
  unfolding exampleRunning_def exampleClient_def
  by (intro reachable_run reachable_new)

subsection \<open>Claims on target addressing\<close>

text \<open>
  C1. Round-trip stability of target addresses. Whenever \<open>parseOneBotTarget\<close> succeeds on
  an input, parsing the canonical rendering that \<open>normalizeOneBotMessagingTarget\<close> produces
  gives the same target; whenever parsing fails, the normalised string is the trimmed input,
  unchanged. (Parsing ignores surrounding whitespace, so the first equation holds for every
  input.)
\<close>

theorem normalize_roundtrip:
  "(parseOneBotTarget a \<noteq> None \<longrightarrow>
      parseOneBotTarget (normalizeOneBotMessagingTarget a) = parseOneBotTarget a)
   \<and> (parseOneBotTarget a = None \<longrightarrow> normalizeOneBotMessagingTarget a = trim a)"
proof (cases "parseOneBotTarget a")
  case None
  then show ?thesis by (simp add: normalizeOneBotMessagingTarget_def)
next
  case (Some t)
  from parseOneBotTarget_Some [OF Some] show ?thesis
  proof (elim disjE exE conjE)
    fix u assume "t = User u" "goodId u"
    with Some show ?thesis
      using parse_user [of u] by (simp add: normalizeOneBotMessagingTarget_def)
  next
    fix g assume "t = Group g" "goodId g"
    with Some show ?thesis
      using parse_group [of g] by (simp add: normalizeOneBotMessagingTarget_def)
  next
    fix g c assume "t = Channel g c" "goodPart g" "goodPart c"
    with Some show ?thesis
      using parse_channel [of g c] by (simp add: normalizeOneBotMessagingTarget_def)
  qed
qed

theorem normalize_roundtrip_witness:
  "parseOneBotTarget '' OneBot:Guild: g1 / c1:x '' = Some (Channel ''g1'' ''c1'')
   \<and> normalizeOneBotMessagingTarget '' OneBot:Guild: g1 / c1:x '' = ''channel:g1:c1''
   \<and> parseOneBotTarget ''channel:g1:c1'' = Some (Channel ''g1'' ''c1'')
   \<and> parseOneBotTarget '' 12345 '' = None
   \<and> normalizeOneBotMessagingTarget '' 12345 '' = ''12345''"
proof -
  have p1: "parseOneBotTarget '' OneBot:Guild: g1 / c1:x '' = Some (Channel ''g1'' ''c1'')"
    by code_simp
  have n1: "normalizeOneBotMessagingTarget '' OneBot:Guild: g1 / c1:x '' = ''channel:g1:c1''"
    by code_simp
  have p2: "parseOneBotTarget '' 12345 '' = None"
    by code_simp
  have t2: "trim '' 12345 '' = ''12345''"
    by code_simp
  from normalize_roundtrip [of "'' OneBot:Guild: g1 / c1:x ''"]
    normalize_roundtrip [of "'' 12345 ''"] p1 n1 p2 t2
  show ?thesis by simp
qed

text \<open>
  C8. Parsing of channel addresses. An optional leading \<^verbatim>\<open>onebot:\<close> scheme is stripped
  whatever its letter case; after a channel-style prefix (\<^verbatim>\<open>channel:\<close> or \<^verbatim>\<open>guild:\<close>, in
  any letter case) the remainder is split at every \<^verbatim>\<open>/\<close> and \<^verbatim>\<open>:\<close>, each piece is trimmed,
  empty pieces are dropped, and at least two pieces must be left: the first two become the
  guild and the channel (both non-empty), fewer give no target. So
  \<^verbatim>\<open>onebot:channel:g1/c1\<close> parses to the channel \<^verbatim>\<open>g1\<close>, \<^verbatim>\<open>c1\<close>, and \<^verbatim>\<open>channel:onlyone\<close>
  does not parse.
\<close>

theorem channel_address_parsing:
  "parseOneBotTarget ''onebot:channel:g1/c1'' = Some (Channel ''g1'' ''c1'')
   \<and> parseOneBotTarget ''channel:onlyone'' = None
   \<and> ((sc = [] \<or> toLowerCase sc = ''onebot:'')
        \<and> (toLowerCase P = ''channel:'' \<or> toLowerCase P = ''guild:'') \<longrightarrow>
        parseOneBotTarget (sc @ P @ rest) =
          (case filter (\<lambda>part. part \<noteq> []) (map trim (splitOn isPathSep (trim rest))) of
             g # c # _ \<Rightarrow> Some (Channel g c)
           | _ \<Rightarrow> None))
   \<and> (parseOneBotTarget a = Some (Channel g c) \<longrightarrow> g \<noteq> [] \<and> c \<noteq> [])"
proof (intro conjI impI)
  show "parseOneBotTarget ''onebot:channel:g1/c1'' = Some (Channel ''g1'' ''c1'')"
    by code_simp
  show "parseOneBotTarget ''channel:onlyone'' = None"
    by code_simp
next
  assume h: "(sc = [] \<or> toLowerCase sc = ''onebot:'')
             \<and> (toLowerCase P = ''channel:'' \<or> toLowerCase P = ''guild:'')"
  then have m: "toLowerCase P \<in> set targetPrefixes"
    by (auto simp: targetPrefixes_def)
  have e: "channelParts [] = []"
    by (simp add: channelParts_def trim_def trimStart_def trimEnd_def)
  from h have "sc = [] \<or> toLowerCase sc = ''onebot:''" by simp
  from parse_prefixed [OF this refl m, of rest] h e
  show "parseOneBotTarget (sc @ P @ rest) =
          (case filter (\<lambda>part. part \<noteq> []) (map trim (splitOn isPathSep (trim rest))) of
             g # c # _ \<Rightarrow> Some (Channel g c)
           | _ \<Rightarrow> None)"
    by (auto simp: channelParts_def [symmetric])
next
  assume "parseOneBotTarget a = Some (Channel g c)"
  from parseOneBotTarget_Some [OF this] have "goodPart g \<and> goodPart c" by simp
  then show "g \<noteq> []" and "c \<noteq> []" by (simp_all add: goodPart_def goodId_def)
qed

theorem channel_address_parsing_witness:
  "toLowerCase ''OneBot:'' = ''onebot:'' \<and> toLowerCase ''GUILD:'' = ''guild:''
   \<and> parseOneBotTarget (''OneBot:'' @ ''GUILD:'' @ '' a / : b:c '') = Some (Channel ''a'' ''b'')
   \<and> parseOneBotTarget (''OneBot:'' @ ''GUILD:'' @ '' a / : '') = None"
proof -
  have l: "toLowerCase ''OneBot:'' = ''onebot:''" "toLowerCase ''GUILD:'' = ''guild:''"
    by code_simp+
  have s1: "filter (\<lambda>part. part \<noteq> []) (map trim (splitOn isPathSep (trim '' a / : b:c ''))) = [''a'', ''b'', ''c'']"
    by code_simp
  have s2: "filter (\<lambda>part. part \<noteq> []) (map trim (splitOn isPathSep (trim '' a / : ''))) = [''a'']"
    by code_simp
  from channel_address_parsing [of "''OneBot:''" "''GUILD:''" "'' a / : b:c ''"]
    channel_address_parsing [of "''OneBot:''" "''GUILD:''" "'' a / : ''"] l s1 s2
  show ?thesis by simp
qed

text \<open>
  C7. The address of an event. The detail type is compared after trimming and lower-casing
  it, and an id counts as present when it is a non-empty string (the source tests its
  truthiness). The detail types \<^verbatim>\<open>private\<close>, \<^verbatim>\<open>user\<close> and \<^verbatim>\<open>dm\<close> give a user address
  exactly when the user id is present; \<^verbatim>\<open>group\<close> gives a group address exactly when the
  group id is present; \<^verbatim>\<open>channel\<close> gives a channel address exactly when both the guild id
  and the channel id are present; every other detail type, and every missing field, gives
  none.
\<close>

theorem fromEvent_mapping:
  "(toLowerCase (trim (detailType e)) \<in> {''private'', ''user'', ''dm''} \<longrightarrow>
      buildOneBotTargetFromEvent e =
        (if truthy (userId e) then Some (''user:'' @ the (userId e)) else None))
   \<and> (toLowerCase (trim (detailType e)) = ''group'' \<longrightarrow>
      buildOneBotTargetFromEvent e =
        (if truthy (groupId e) then Some (''group:'' @ the (groupId e)) else None))
   \<and> (toLowerCase (trim (detailType e)) = ''channel'' \<longrightarrow>
      buildOneBotTargetFromEvent e =
        (if truthy (guildId e) \<and> truthy (channelId e)
         then Some (''channel:'' @ the (guildId e) @ '':'' @ the (channelId e)) else None))
   \<and> (toLowerCase (trim (detailType e)) \<notin> {''private'', ''user'', ''dm'', ''group'', ''channel''} \<longrightarrow>
      buildOneBotTargetFromEvent e = None)"
  by (simp add: buildOneBotTargetFromEvent_def Let_def)

theorem fromEvent_mapping_witness:
  "buildOneBotTargetFromEvent
     \<lparr>detailType = ''group'', userId = Some ''7'', groupId = Some ''42'', guildId = None, channelId = None\<rparr>
     = Some ''group:42''
   \<and> buildOneBotTargetFromEvent
     \<lparr>detailType = ''group'', userId = Some ''7'', groupId = None, guildId = None, channelId = None\<rparr>
     = None
   \<and> buildOneBotTargetFromEvent
     \<lparr>detailType = ''dm'', userId = Some ''7'', groupId = None, guildId = None, channelId = None\<rparr>
     = Some ''user:7''
   \<and> buildOneBotTargetFromEvent
     \<lparr>detailType = ''channel'', userId = Some ''7'', groupId = None, guildId = Some ''g'', channelId = None\<rparr>
     = None
   \<and> buildOneBotTargetFromEvent
     \<lparr>detailType = ''channel'', userId = Some ''7'', groupId = None, guildId = Some ''g'', channelId = Some ''c''\<rparr>
     = Some ''channel:g:c''
   \<and> buildOneBotTargetFromEvent
     \<lparr>detailType = ''notice'', userId = Some ''7'', groupId = Some ''42'', guildId = Some ''g'', channelId = Some ''c''\<rparr>
     = None"
proof -
  have d: "toLowerCase (trim ''group'') = ''group''" "toLowerCase (trim ''dm'') = ''dm''"
    "toLowerCase (trim ''channel'') = ''channel''" "toLowerCase (trim ''notice'') = ''notice''"
    by code_simp+
  from
    fromEvent_mapping [of "\<lparr>detailType = ''group'', userId = Some ''7'', groupId = Some ''42'', guildId = None, channelId = None\<rparr>"]
    fromEvent_mapping [of "\<lparr>detailType = ''group'', userId = Some ''7'', groupId = None, guildId = None, channelId = None\<rparr>"]
    fromEvent_mapping [of "\<lparr>detailType = ''dm'', userId = Some ''7'', groupId = None, guildId = None, channelId = None\<rparr>"]
    fromEvent_mapping [of "\<lparr>detailType = ''channel'', userId = Some ''7'', groupId = None, guildId = Some ''g'', channelId = None\<rparr>"]
    fromEvent_mapping [of "\<lparr>detailType = ''channel'', userId = Some ''7'', groupId = None, guildId = Some ''g'', channelId = Some ''c''\<rparr>"]
    fromEvent_mapping [of "\<lparr>detailType = ''notice'', userId = Some ''7'', groupId = Some ''42'', guildId = Some ''g'', channelId = Some ''c''\<rparr>"]
    d
  show ?thesis by simp
qed

subsection \<open>Claims on the gate\<close>

text \<open>
  C2. Admission of direct messages. Under the policy \<^verbatim>\<open>open\<close> the direct-message branch
  admits every sender, whatever the allow lists hold: the outcome does not depend on them,
  and nothing is logged or sent. Under the policy \<^verbatim>\<open>disabled\<close> it drops every sender with
  the reason \<^verbatim>\<open>dmPolicy=disabled\<close>, also a sender of the merged allow list. The same holds
  for \<open>handleOneBotMessage\<close> on every event that passes its first checks and is not
  group-like.
\<close>

theorem dm_admission_policy:
  "(dmPolicy (config account) = Some DmOpen \<longrightarrow>
      dmAdmission host clients account event senderId = (Admitted, clients, []))
   \<and> (dmPolicy (config account) = Some DmDisabled \<longrightarrow>
      dmAdmission host clients account event senderId =
        (Returned, clients,
         [RuntimeLog (''onebot: drop DM sender '' @ senderId @ '' (dmPolicy=disabled)'')]))
   \<and> (passesChecks account event \<and> \<not> groupLike event
        \<and> dmPolicy (config account) = Some DmOpen \<longrightarrow>
      handleOneBotMessage host clients account event = (Admitted, clients, [StatusLastInboundAt]))
   \<and> (passesChecks account event \<and> \<not> groupLike event
        \<and> dmPolicy (config account) = Some DmDisabled \<longrightarrow>
      handleOneBotMessage host clients account event =
        (Returned, clients,
         [StatusLastInboundAt,
          RuntimeLog (''onebot: drop DM sender '' @ eventSenderId event @ '' (dmPolicy=disabled)'')]))"
proof -
  have o: "dmAdmission host clients account event s = (Admitted, clients, [])"
    if "dmPolicy (config account) = Some DmOpen" for s
    using that by (simp add: dmAdmission_def)
  have d: "dmAdmission host clients account event s =
        (Returned, clients, [RuntimeLog (''onebot: drop DM sender '' @ s @ '' (dmPolicy=disabled)'')])"
    if "dmPolicy (config account) = Some DmDisabled" for s
    using that by (simp add: dmAdmission_def)
  show ?thesis
    using o d by (auto simp: handle_direct)
qed

theorem dm_admission_policy_witness:
  "passesChecks (exampleAccount exampleConfig) (exampleEvent ''private'' ''123'' None)
   \<and> \<not> groupLike (exampleEvent ''private'' ''123'' None)
   \<and> isAllowed (effectiveAllowFrom exampleHost exampleConfig) (Some ''123'')
   \<and> handleOneBotMessage exampleHost exampleClients (exampleAccount exampleConfig)
        (exampleEvent ''private'' ''123'' None) =
      (Returned, exampleClients,
       [StatusLastInboundAt, RuntimeLog ''onebot: drop DM sender 123 (dmPolicy=disabled)''])
   \<and> \<not> isAllowed (effectiveAllowFrom exampleHost (exampleConfig\<lparr>dmPolicy := Some DmOpen, allowFrom := None\<rparr>))
          (Some ''123'')
   \<and> handleOneBotMessage exampleHost exampleClients
        (exampleAccount (exampleConfig\<lparr>dmPolicy := Some DmOpen, allowFrom := None\<rparr>))
        (exampleEvent ''private'' ''123'' None) =
      (Admitted, exampleClients, [StatusLastInboundAt])"
proof -
  have p: "passesChecks (exampleAccount exampleConfig) (exampleEvent ''private'' ''123'' None)"
    by code_simp
  have p': "passesChecks (exampleAccount (exampleConfig\<lparr>dmPolicy := Some DmOpen, allowFrom := None\<rparr>))
              (exampleEvent ''private'' ''123'' None)"
    by code_simp
  have g: "\<not> groupLike (exampleEvent ''private'' ''123'' None)"
    by code_simp
  have a: "isAllowed (effectiveAllowFrom exampleHost exampleConfig) (Some ''123'')"
    by code_simp
  have a': "\<not> isAllowed (effectiveAllowFrom exampleHost (exampleConfig\<lparr>dmPolicy := Some DmOpen, allowFrom := None\<rparr>))
          (Some ''123'')"
    by code_simp
  have s: "eventSenderId (exampleEvent ''private'' ''123'' None) = ''123''"
    by code_simp
  have d: "dmPolicy (config (exampleAccount exampleConfig)) = Some DmDisabled"
    "dmPolicy (config (exampleAccount (exampleConfig\<lparr>dmPolicy := Some DmOpen, allowFrom := None\<rparr>))) = Some DmOpen"
    by (simp_all add: exampleAccount_def exampleConfig_def)
  from dm_admission_policy [of "exampleAccount exampleConfig" exampleHost exampleClients
        "exampleEvent ''private'' ''123'' None" "''123''"]
    dm_admission_policy [of "exampleAccount (exampleConfig\<lparr>dmPolicy := Some DmOpen, allowFrom := None\<rparr>)"
        exampleHost exampleClients "exampleEvent ''private'' ''123'' None" "''123''"]
    p p' g a a' s d
  show ?thesis by simp
qed





subsection \<open>Claim on the outbound adapter\<close>

text \<open>
  C10. Sending an empty text. For a target that parses and an account with a registered
  client, \<open>sendOneBotMessage\<close> with a text that is empty or all whitespace returns the
  result with channel \<^verbatim>\<open>onebot\<close> and the given target, and does nothing on the client: no
  action is sent and the registry is as before. The two checks before it still throw,
  whatever the text: a target that does not parse, and an account with no registered
  client.
\<close>

theorem empty_text_send:
  "(parseOneBotTarget target \<noteq> None \<and> clients (accountId account) \<noteq> None
      \<and> (\<forall>c\<in>set text. isWhiteSpace c) \<longrightarrow>
      sendOneBotMessage clients account target text now sendThrows settles =
        (Inr \<lparr>channel = ''onebot'', to = target\<rparr>, clients, []))
   \<and> (parseOneBotTarget target = None \<longrightarrow>
      sendOneBotMessage clients account target text now sendThrows settles =
        (Inl ''Invalid OneBot target. Use <user:ID|group:ID|channel:GUILD:CHANNEL>'', clients, []))
   \<and> (parseOneBotTarget target \<noteq> None \<and> clients (accountId account) = None \<longrightarrow>
      sendOneBotMessage clients account target text now sendThrows settles =
        (Inl ''OneBot client is not connected'', clients, []))"
  by (auto simp: sendOneBotMessage_def getOneBotClient_def CHANNEL_ID_def formatOneBotTargetHint_def
        trim_Nil_iff [symmetric])

theorem empty_text_send_witness:
  "sendOneBotMessage exampleClients (exampleAccount exampleConfig) ''group:987'' [CHR '' '', CHR 0x09] 0 None
     (Inl ''none'') =
     (Inr \<lparr>channel = ''onebot'', to = ''group:987''\<rparr>, exampleClients, [])
   \<and> sendOneBotMessage exampleClients (exampleAccount exampleConfig) ''987'' [CHR '' '', CHR 0x09] 0 None
     (Inl ''none'') =
     (Inl ''Invalid OneBot target. Use <user:ID|group:ID|channel:GUILD:CHANNEL>'', exampleClients, [])
   \<and> sendOneBotMessage Map.empty (exampleAccount exampleConfig) ''group:987'' [CHR '' '', CHR 0x09] 0 None
     (Inl ''none'') =
     (Inl ''OneBot client is not connected'', Map.empty, [])"
proof -
  have p: "parseOneBotTarget ''group:987'' \<noteq> None" "parseOneBotTarget ''987'' = None"
    by code_simp+
  have c: "exampleClients (accountId (exampleAccount exampleConfig)) \<noteq> None"
    by (simp add: exampleClients_def exampleAccount_def setOneBotClient_def)
  have t: "\<forall>c\<in>set [CHR '' '', CHR 0x09]. isWhiteSpace c"
    by (simp add: isWhiteSpace_def)
  from empty_text_send [of "''group:987''" exampleClients "exampleAccount exampleConfig"
        "[CHR '' '', CHR 0x09]" 0 None "Inl ''none''"]
    empty_text_send [of "''987''" exampleClients "exampleAccount exampleConfig"
        "[CHR '' '', CHR 0x09]" 0 None "Inl ''none''"]
    empty_text_send [of "''group:987''" Map.empty "exampleAccount exampleConfig"
        "[CHR '' '', CHR 0x09]" 0 None "Inl ''none''"]
    p c t
  show ?thesis by simp
qed

subsection \<open>Claims on the protocol client\<close>

text \<open>
  C4. Close of a socket. In every state that a client reaches, when a socket closes and
  the client is not stopped, the close handler rejects each pending action once, in the
  order of the map, with the error \<^verbatim>\<open>OneBot connection closed\<close> (the echoes of the map
  differ), empties the map and leaves no timeout timer set; afterwards exactly one
  reconnect timer is set: a new one, with the reconnect delay, when none was set, and the
  one that was set otherwise, so that a close while a reconnect timer is outstanding sets no
  second one. In every reachable state at most one reconnect timer is set. After \<open>stop\<close>,
  whatever steps follow, the client stays stopped and no reconnect timer is set.
\<close>

theorem close_rejects_and_reconnects:
  assumes "reachable lib c"
  shows "(socketLive i c \<and> \<not> stopped c \<longrightarrow>
            snd (onSocketClose i code reasonText c) =
              [LogWarn (''onebot: websocket closed ('' @ digitsOf code @ '') '' @ reasonText),
               OnClose code reasonText]
              @ map (\<lambda>(e, t). Reject e ''OneBot connection closed'') (pending c)
          \<and> distinct (map fst (pending c))
          \<and> pending (fst (onSocketClose i code reasonText c)) = []
          \<and> (\<forall>t\<in>set (timers (fst (onSocketClose i code reasonText c))). task t = Reconnect)
          \<and> length (reconnectTimers (fst (onSocketClose i code reasonText c))) = 1
          \<and> (reconnectTimer c = None \<longrightarrow>
               timers (fst (onSocketClose i code reasonText c)) =
                 [\<lparr>timerId = nextTimerId c, task = Reconnect, delayMs = reconnectDelayMs c\<rparr>]
               \<and> reconnectTimer (fst (onSocketClose i code reasonText c)) = Some (nextTimerId c))
          \<and> (reconnectTimer c \<noteq> None \<longrightarrow>
               timers (fst (onSocketClose i code reasonText c)) = reconnectTimers c
               \<and> reconnectTimer (fst (onSocketClose i code reasonText c)) = reconnectTimer c))
       \<and> length (reconnectTimers c) \<le> 1
       \<and> stopped (fst (run lib ss (fst (stop c))))
       \<and> reconnectTimer (fst (run lib ss (fst (stop c)))) = None
       \<and> reconnectTimers (fst (run lib ss (fst (stop c)))) = []"
proof -
  from assms have inv: "clientInvariant c" by (rule reachable_invariant)
  have close: "snd (onSocketClose i code reasonText c) =
              [LogWarn (''onebot: websocket closed ('' @ digitsOf code @ '') '' @ reasonText),
               OnClose code reasonText]
              @ map (\<lambda>(e, t). Reject e ''OneBot connection closed'') (pending c)
          \<and> distinct (map fst (pending c))
          \<and> pending (fst (onSocketClose i code reasonText c)) = []
          \<and> (\<forall>t\<in>set (timers (fst (onSocketClose i code reasonText c))). task t = Reconnect)
          \<and> length (reconnectTimers (fst (onSocketClose i code reasonText c))) = 1
          \<and> (reconnectTimer c = None \<longrightarrow>
               timers (fst (onSocketClose i code reasonText c)) =
                 [\<lparr>timerId = nextTimerId c, task = Reconnect, delayMs = reconnectDelayMs c\<rparr>]
               \<and> reconnectTimer (fst (onSocketClose i code reasonText c)) = Some (nextTimerId c))
          \<and> (reconnectTimer c \<noteq> None \<longrightarrow>
               timers (fst (onSocketClose i code reasonText c)) = reconnectTimers c
               \<and> reconnectTimer (fst (onSocketClose i code reasonText c)) = reconnectTimer c)"
    if live: "socketLive i c" and ns: "\<not> stopped c"
  proof -
    let ?c' = "fst (onSocketClose i code reasonText c)"
    let ?c1 = "c\<lparr>sockets := (sockets c)[i := CLOSED], timers := reconnectTimers c, pending := []\<rparr>"
    have st: "?c' = scheduleReconnect ?c1"
      using onSocketClose_state [OF inv live] ns by (simp add: Let_def)
    have inv': "clientInvariant ?c'"
      using inv live by (rule invariant_onSocketClose)
    have d: "distinct (map fst (pending c))"
      using inv by (simp add: clientInvariant_def pendingOk_def)
    have p: "pending ?c' = []"
      unfolding st by (simp add: scheduleReconnect_eq)
    have none: "timers ?c' = [\<lparr>timerId = nextTimerId c, task = Reconnect, delayMs = reconnectDelayMs c\<rparr>]
               \<and> reconnectTimer ?c' = Some (nextTimerId c)"
      if "reconnectTimer c = None"
    proof -
      from inv that have "reconnectTimers c = []"
        by (auto simp: clientInvariant_def reconnectOk_def reconnectTimers_def filter_empty_conv)
      with that ns show ?thesis
        unfolding st by (simp add: scheduleReconnect_eq)
    qed
    have some: "timers ?c' = reconnectTimers c \<and> reconnectTimer ?c' = reconnectTimer c"
      if "reconnectTimer c \<noteq> None"
      using that unfolding st by (simp add: scheduleReconnect_eq)
    have all: "\<forall>t\<in>set (timers ?c'). task t = Reconnect"
    proof (cases "reconnectTimer c")
      case None
      with none show ?thesis by simp
    next
      case (Some r)
      with some show ?thesis by (simp add: reconnectTimers_def)
    qed
    have "reconnectTimer ?c' \<noteq> None"
      using none some by (cases "reconnectTimer c") auto
    from one_reconnect_timer(2) [OF inv' this] have one: "length (reconnectTimers ?c') = 1" .
    from onSocketClose_effects d p all one none some show ?thesis by blast
  qed
  have le: "length (reconnectTimers c) \<le> 1"
    using inv by (rule one_reconnect_timer(1))
  have inv_s: "clientInvariant (fst (run lib ss (fst (stop c))))"
    using inv by (intro invariant_run invariant_stop)
  have stp: "stopped (fst (run lib ss (fst (stop c))))"
    by (intro run_stopped stop_stopped)
  from close le stp stopped_no_reconnect [OF inv_s stp] show ?thesis by blast
qed

theorem close_rejects_and_reconnects_witness:
  "socketLive 0 exampleRunning
   \<and> \<not> stopped exampleRunning
   \<and> pending exampleRunning = [(''onebot:1700:0'', 0)]
   \<and> snd (onSocketClose 0 1006 [] exampleRunning) =
       [LogWarn ''onebot: websocket closed (1006) '', OnClose 1006 [],
        Reject ''onebot:1700:0'' ''OneBot connection closed'']
   \<and> pending (fst (onSocketClose 0 1006 [] exampleRunning)) = []
   \<and> timers (fst (onSocketClose 0 1006 [] exampleRunning)) =
       [\<lparr>timerId = 1, task = Reconnect, delayMs = 2500\<rparr>]
   \<and> reconnectTimer (fst (onSocketClose 0 1006 [] exampleRunning)) = Some 1
   \<and> length (reconnectTimers (fst (onSocketClose 0 1006 [] exampleRunning))) = 1
   \<and> socketLive 1 (fst (onSocketClose 0 1006 [] exampleRunning))
   \<and> timers (fst (onSocketClose 1 1000 [] (fst (onSocketClose 0 1006 [] exampleRunning)))) =
       [\<lparr>timerId = 1, task = Reconnect, delayMs = 2500\<rparr>]
   \<and> stopped (fst (run examplePlatform [SocketClosed 0 1006 [], Start] (fst (stop exampleRunning))))
   \<and> reconnectTimers (fst (run examplePlatform [SocketClosed 0 1006 [], Start] (fst (stop exampleRunning)))) = []"
proof -
  let ?c1 = "fst (onSocketClose 0 1006 [] exampleRunning)"
  have f: "socketLive 0 exampleRunning" "\<not> stopped exampleRunning"
    "pending exampleRunning = [(''onebot:1700:0'', 0)]" "reconnectTimer exampleRunning = None"
    "nextTimerId exampleRunning = 1" "reconnectDelayMs exampleRunning = 2500"
    by (simp_all add: exampleRunning_eq socketLive_def)
  have d: "digitsOf 1006 = ''1006''"
    by (simp add: digitsOf.simps digit_chars)
  have s: "step examplePlatform (SocketClosed 0 1006 []) exampleRunning = onSocketClose 0 1006 [] exampleRunning"
    using f(1) by simp
  have r1: "reachable examplePlatform ?c1"
    using reachable_step [OF example_reachable, of "SocketClosed 0 1006 []"] s by simp
  note t0 = close_rejects_and_reconnects [OF example_reachable, of 0 1006 "[]"
              "[SocketClosed 0 1006 [], Start]"]
  have a: "snd (onSocketClose 0 1006 [] exampleRunning) =
       [LogWarn ''onebot: websocket closed (1006) '', OnClose 1006 [],
        Reject ''onebot:1700:0'' ''OneBot connection closed'']"
    "pending ?c1 = []"
    "timers ?c1 = [\<lparr>timerId = 1, task = Reconnect, delayMs = 2500\<rparr>]"
    "reconnectTimer ?c1 = Some 1"
    "length (reconnectTimers ?c1) = 1"
    "stopped (fst (run examplePlatform [SocketClosed 0 1006 [], Start] (fst (stop exampleRunning))))"
    "reconnectTimers (fst (run examplePlatform [SocketClosed 0 1006 [], Start] (fst (stop exampleRunning)))) = []"
    using t0 f d by simp_all
  have l1: "socketLive 1 ?c1" "\<not> stopped ?c1"
    by (simp_all add: exampleRunning_eq onSocketClose_def rejectAllPending_eq scheduleReconnect_eq
          socketLive_def Let_def)
  have rt: "reconnectTimers ?c1 = [\<lparr>timerId = 1, task = Reconnect, delayMs = 2500\<rparr>]"
    using a(3) by (simp add: reconnectTimers_def)
  note t1 = close_rejects_and_reconnects [OF r1, of 1 1000 "[]" "[]"]
  have b: "timers (fst (onSocketClose 1 1000 [] ?c1)) = [\<lparr>timerId = 1, task = Reconnect, delayMs = 2500\<rparr>]"
    using t1 l1 a(4) rt by simp
  from f a l1 b show ?thesis by simp
qed

text \<open>
  C5. Timeout of an action. In every state that a client reaches: \<open>sendAction\<close> on an open
  socket registers the action under a new echo with a timeout timer, whose delay is the
  given \<^verbatim>\<open>timeoutMs\<close> and 10000 ms when none is given, and every pending action has its
  timer set. When the timer of an action fires, the action is pending; its entry is
  removed and its promise is rejected with \<^verbatim>\<open>OneBot action timeout:\<close> and the name of the
  action. After that, whatever steps follow, a response with that echo finds no entry and
  does nothing: the state is unchanged, nothing is resolved or rejected, and no event is
  dispatched. A response that comes while the action is pending resolves it and clears its
  timer, which then does not fire.
\<close>

theorem action_timeout:
  assumes "reachable lib c"
  shows "(isOpen c \<longrightarrow>
            sendAction act ps options now None c =
              (Awaiting (echoToken now (actionCounter c)),
               c\<lparr>actionCounter := Suc (actionCounter c),
                 timers := timers c @ [\<lparr>timerId = nextTimerId c,
                                        task = ActionTimeout (echoToken now (actionCounter c)) act,
                                        delayMs = actionTimeoutMs options\<rparr>],
                 nextTimerId := Suc (nextTimerId c),
                 pending := pending c @ [(echoToken now (actionCounter c), nextTimerId c)]\<rparr>,
               [SocketSend (the (ws c))
                  \<lparr>action = act, params = ps, echo = echoToken now (actionCounter c),
                   requestSelf = (case (case options of None \<Rightarrow> None | Some opts \<Rightarrow> optSelf opts) of
                                    Some s' \<Rightarrow> Some s' | None \<Rightarrow> self c)\<rparr>]))
       \<and> actionTimeoutMs None = 10000
       \<and> actionTimeoutMs (Some \<lparr>timeoutMs = None, optSelf = s\<rparr>) = 10000
       \<and> actionTimeoutMs (Some \<lparr>timeoutMs = Some d, optSelf = s\<rparr>) = d
       \<and> ((e, j) \<in> set (pending c) \<longrightarrow>
            (\<exists>t\<in>set (timers c). timerId t = j \<and> (\<exists>a. task t = ActionTimeout e a)))
       \<and> (t \<in> set (timers c) \<and> task t = ActionTimeout e act \<longrightarrow>
            (e, timerId t) \<in> set (pending c)
            \<and> onTimer lib (timerId t) c =
                (c\<lparr>timers := filter (\<lambda>u. timerId u \<noteq> timerId t) (timers c),
                   pending := mapDelete e (pending c)\<rparr>,
                 [Reject e (''OneBot action timeout: '' @ act)])
            \<and> e \<notin> fst ` set (pending (fst (onTimer lib (timerId t) c)))
            \<and> (stringProp payload ''echo'' = Some e \<and> stringProp payload ''status'' = Some st \<longrightarrow>
                 handlePayload payload (fst (run lib ss (fst (onTimer lib (timerId t) c)))) =
                   (fst (run lib ss (fst (onTimer lib (timerId t) c))), [])
                 \<and> onSocketMessage (Inr payload) (fst (run lib ss (fst (onTimer lib (timerId t) c)))) =
                   (fst (run lib ss (fst (onTimer lib (timerId t) c))), [])))
       \<and> ((e, j) \<in> set (pending c) \<and> stringProp payload ''echo'' = Some e
             \<and> stringProp payload ''status'' = Some st \<longrightarrow>
            handlePayload payload c =
              (c\<lparr>timers := filter (\<lambda>u. timerId u \<noteq> j) (timers c), pending := mapDelete e (pending c)\<rparr>,
               [Resolve e payload])
            \<and> onTimer lib j (fst (handlePayload payload c)) = (fst (handlePayload payload c), []))"
proof -
  from assms have inv: "clientInvariant c" by (rule reachable_invariant)
  then have tok: "timersOk (timers c) (nextTimerId c)"
    and p: "pendingOk (pending c) (timers c) (actionCounter c)"
    by (simp_all add: clientInvariant_def)
  have send: "sendAction act ps options now None c =
              (Awaiting (echoToken now (actionCounter c)),
               c\<lparr>actionCounter := Suc (actionCounter c),
                 timers := timers c @ [\<lparr>timerId = nextTimerId c,
                                        task = ActionTimeout (echoToken now (actionCounter c)) act,
                                        delayMs = actionTimeoutMs options\<rparr>],
                 nextTimerId := Suc (nextTimerId c),
                 pending := pending c @ [(echoToken now (actionCounter c), nextTimerId c)]\<rparr>,
               [SocketSend (the (ws c))
                  \<lparr>action = act, params = ps, echo = echoToken now (actionCounter c),
                   requestSelf = (case (case options of None \<Rightarrow> None | Some opts \<Rightarrow> optSelf opts) of
                                    Some s' \<Rightarrow> Some s' | None \<Rightarrow> self c)\<rparr>])"
    if "isOpen c"
    using inv that by (rule sendAction_sent)
  have ms: "actionTimeoutMs None = 10000"
    "actionTimeoutMs (Some \<lparr>timeoutMs = None, optSelf = s\<rparr>) = 10000"
    "actionTimeoutMs (Some \<lparr>timeoutMs = Some d, optSelf = s\<rparr>) = d"
    by (simp_all add: actionTimeoutMs_def)
  have entry: "\<exists>t\<in>set (timers c). timerId t = j \<and> (\<exists>a. task t = ActionTimeout e a)"
    if "(e, j) \<in> set (pending c)"
    using p that by (rule pendingOk_entry)
  have timeout: "(e, timerId t) \<in> set (pending c)
            \<and> onTimer lib (timerId t) c =
                (c\<lparr>timers := filter (\<lambda>u. timerId u \<noteq> timerId t) (timers c),
                   pending := mapDelete e (pending c)\<rparr>,
                 [Reject e (''OneBot action timeout: '' @ act)])
            \<and> e \<notin> fst ` set (pending (fst (onTimer lib (timerId t) c)))
            \<and> (stringProp payload ''echo'' = Some e \<and> stringProp payload ''status'' = Some st \<longrightarrow>
                 handlePayload payload (fst (run lib ss (fst (onTimer lib (timerId t) c)))) =
                   (fst (run lib ss (fst (onTimer lib (timerId t) c))), [])
                 \<and> onSocketMessage (Inr payload) (fst (run lib ss (fst (onTimer lib (timerId t) c)))) =
                   (fst (run lib ss (fst (onTimer lib (timerId t) c))), []))"
    if t: "t \<in> set (timers c) \<and> task t = ActionTimeout e act"
  proof -
    let ?c1 = "fst (onTimer lib (timerId t) c)"
    from t have t1: "t \<in> set (timers c)" and t2: "task t = ActionTimeout e act" by simp_all
    have m: "(e, timerId t) \<in> set (pending c)"
      using p t1 t2 by (rule pendingOk_timer)
    have eq: "onTimer lib (timerId t) c =
                (c\<lparr>timers := filter (\<lambda>u. timerId u \<noteq> timerId t) (timers c),
                   pending := mapDelete e (pending c)\<rparr>,
                 [Reject e (''OneBot action timeout: '' @ act)])"
      using inv t1 t2 by (rule onTimer_timeout)
    have gone: "e \<notin> fst ` set (pending ?c1)"
      unfolding eq using mapDelete_keys [of e "pending c"] by simp
    from pendingOk_echo [OF p m] obtain n k where "k < actionCounter c" "e = echoToken n k"
      by blast
    then have "k < actionCounter ?c1 \<and> e = echoToken n k"
      unfolding eq by simp
    with gone have spent: "spentEcho e ?c1"
      unfolding spentEcho_def by blast
    have inv1: "clientInvariant ?c1"
      using inv by (rule invariant_onTimer)
    from spentEcho_run [OF inv1 spent, of lib ss]
    have late: "e \<notin> fst ` set (pending (fst (run lib ss ?c1)))"
      by (simp add: spentEcho_def)
    have "handlePayload payload (fst (run lib ss ?c1)) = (fst (run lib ss ?c1), [])"
      if "stringProp payload ''echo'' = Some e \<and> stringProp payload ''status'' = Some st"
      using late_response [OF late] that by blast
    then have "stringProp payload ''echo'' = Some e \<and> stringProp payload ''status'' = Some st \<longrightarrow>
                 handlePayload payload (fst (run lib ss ?c1)) = (fst (run lib ss ?c1), [])
                 \<and> onSocketMessage (Inr payload) (fst (run lib ss ?c1)) = (fst (run lib ss ?c1), [])"
      by (simp add: onSocketMessage_def)
    with m eq gone show ?thesis by blast
  qed
  have intime: "handlePayload payload c =
              (c\<lparr>timers := filter (\<lambda>u. timerId u \<noteq> j) (timers c), pending := mapDelete e (pending c)\<rparr>,
               [Resolve e payload])
            \<and> onTimer lib j (fst (handlePayload payload c)) = (fst (handlePayload payload c), [])"
    if h: "(e, j) \<in> set (pending c) \<and> stringProp payload ''echo'' = Some e
             \<and> stringProp payload ''status'' = Some st"
  proof -
    from h have m: "map_of (pending c) e = Some j"
      using map_of_pending [OF p] by simp
    from h have o: "isObjectValue payload" using stringProp_object by blast
    from h m o have eq: "handlePayload payload c =
              (c\<lparr>timers := filter (\<lambda>u. timerId u \<noteq> j) (timers c), pending := mapDelete e (pending c)\<rparr>,
               [Resolve e payload])"
      by (simp add: handlePayload_cases)
    have "\<forall>t\<in>set (timers (fst (handlePayload payload c))). timerId t \<noteq> j"
      unfolding eq by simp
    from onTimer_unset [OF this] eq show ?thesis by simp
  qed
  from send ms entry timeout intime show ?thesis by blast
qed

theorem action_timeout_witness:
  "isOpen exampleRunning
   \<and> sendAction ''get_status'' None None 1701 None exampleRunning =
       (Awaiting ''onebot:1701:1'',
        exampleRunning\<lparr>actionCounter := 2,
          timers := [\<lparr>timerId = 0, task = ActionTimeout ''onebot:1700:0'' ''send_message'', delayMs = 10000\<rparr>,
                     \<lparr>timerId = 1, task = ActionTimeout ''onebot:1701:1'' ''get_status'', delayMs = 10000\<rparr>],
          nextTimerId := 2,
          pending := [(''onebot:1700:0'', 0), (''onebot:1701:1'', 1)]\<rparr>,
        [SocketSend 1 \<lparr>action = ''get_status'', params = None, echo = ''onebot:1701:1'', requestSelf = None\<rparr>])
   \<and> onTimer examplePlatform 0 exampleRunning =
       (exampleRunning\<lparr>timers := [], pending := []\<rparr>,
        [Reject ''onebot:1700:0'' ''OneBot action timeout: send_message''])
   \<and> handlePayload (JObj [(''status'', JStr ''ok''), (''echo'', JStr ''onebot:1700:0'')])
        (fst (run examplePlatform [SendAction ''get_status'' None None 1701 None]
                (fst (onTimer examplePlatform 0 exampleRunning)))) =
       (fst (run examplePlatform [SendAction ''get_status'' None None 1701 None]
                (fst (onTimer examplePlatform 0 exampleRunning))), [])
   \<and> handlePayload (JObj [(''status'', JStr ''ok''), (''echo'', JStr ''onebot:1700:0'')]) exampleRunning =
       (exampleRunning\<lparr>timers := [], pending := []\<rparr>,
        [Resolve ''onebot:1700:0'' (JObj [(''status'', JStr ''ok''), (''echo'', JStr ''onebot:1700:0'')])])
   \<and> onTimer examplePlatform 0
        (fst (handlePayload (JObj [(''status'', JStr ''ok''), (''echo'', JStr ''onebot:1700:0'')]) exampleRunning)) =
       (fst (handlePayload (JObj [(''status'', JStr ''ok''), (''echo'', JStr ''onebot:1700:0'')]) exampleRunning), [])"
proof -
  let ?t = "\<lparr>timerId = 0, task = ActionTimeout ''onebot:1700:0'' ''send_message'', delayMs = 10000\<rparr>"
  let ?p = "JObj [(''status'', JStr ''ok''), (''echo'', JStr ''onebot:1700:0'')]"
  have f: "isOpen exampleRunning" "timers exampleRunning = [?t]"
    "pending exampleRunning = [(''onebot:1700:0'', 0)]" "actionCounter exampleRunning = 1"
    "nextTimerId exampleRunning = 1" "ws exampleRunning = Some 1" "self exampleRunning = None"
    by (simp_all add: exampleRunning_eq isOpen_def)
  have e: "echoToken 1701 1 = ''onebot:1701:1''"
    by (simp add: echoToken_def digitsOf.simps digit_chars)
  have sp: "stringProp ?p ''echo'' = Some ''onebot:1700:0''" "stringProp ?p ''status'' = Some ''ok''"
    by (simp_all add: stringProp_def)
  note t = action_timeout [OF example_reachable, where act = "''send_message''" and e = "''onebot:1700:0''"
             and t = ?t and payload = ?p and st = "''ok''" and j = 0
             and ss = "[SendAction ''get_status'' None None 1701 None]"]
  note u = action_timeout [OF example_reachable, where act = "''get_status''" and ps = None
             and options = None and now = 1701]
  have a: "sendAction ''get_status'' None None 1701 None exampleRunning =
       (Awaiting ''onebot:1701:1'',
        exampleRunning\<lparr>actionCounter := 2,
          timers := [?t, \<lparr>timerId = 1, task = ActionTimeout ''onebot:1701:1'' ''get_status'', delayMs = 10000\<rparr>],
          nextTimerId := 2,
          pending := [(''onebot:1700:0'', 0), (''onebot:1701:1'', 1)]\<rparr>,
        [SocketSend 1 \<lparr>action = ''get_status'', params = None, echo = ''onebot:1701:1'', requestSelf = None\<rparr>])"
    using u [THEN conjunct1] f e by (simp add: numeral_2_eq_2 actionTimeoutMs_def)
  have h: "?t \<in> set (timers exampleRunning) \<and> task ?t = ActionTimeout ''onebot:1700:0'' ''send_message''"
    using f by simp
  note k = t [THEN conjunct2, THEN conjunct2, THEN conjunct2, THEN conjunct2, THEN conjunct2,
              THEN conjunct1, THEN mp, OF h]
  have b1: "onTimer examplePlatform 0 exampleRunning =
       (exampleRunning\<lparr>timers := [], pending := []\<rparr>,
        [Reject ''onebot:1700:0'' ''OneBot action timeout: send_message''])"
    using k [THEN conjunct2, THEN conjunct1] f by (simp add: mapDelete_def)
  have b2: "handlePayload ?p (fst (run examplePlatform [SendAction ''get_status'' None None 1701 None]
                (fst (onTimer examplePlatform 0 exampleRunning)))) =
       (fst (run examplePlatform [SendAction ''get_status'' None None 1701 None]
                (fst (onTimer examplePlatform 0 exampleRunning))), [])"
    using k [THEN conjunct2, THEN conjunct2, THEN conjunct2, THEN mp, OF conjI [OF sp], THEN conjunct1]
    by simp
  have m: "(''onebot:1700:0'', 0) \<in> set (pending exampleRunning)
           \<and> stringProp ?p ''echo'' = Some ''onebot:1700:0'' \<and> stringProp ?p ''status'' = Some ''ok''"
    using f sp by simp
  note r = t [THEN conjunct2, THEN conjunct2, THEN conjunct2, THEN conjunct2, THEN conjunct2,
              THEN conjunct2, THEN mp, OF m]
  have b3: "handlePayload ?p exampleRunning =
       (exampleRunning\<lparr>timers := [], pending := []\<rparr>, [Resolve ''onebot:1700:0'' ?p])"
    using r [THEN conjunct1] f by (simp add: mapDelete_def)
  have b4: "onTimer examplePlatform 0 (fst (handlePayload ?p exampleRunning)) =
       (fst (handlePayload ?p exampleRunning), [])"
    using r [THEN conjunct2] .
  from f(1) a b1 b2 b3 b4 show ?thesis by (intro conjI)
qed

end
